theory Spec2Isabelle
  imports Complex_Main
begin

section \<open>JavaScript strings\<close>

text \<open>
  The seeding script (\<^verbatim>\<open>src/unnamed/part_004\<close>, the geocoding variant of
  \<^verbatim>\<open>src/frontend/scripts/seed-data.ts\<close>) works on JavaScript strings: sequences of
  UTF-16 code units. They are modelled as \<^typ>\<open>string\<close>, a \<^typ>\<open>char\<close> being a code unit
  from U+0000 to U+00FF (ASCII and Latin-1); the character classes of \<^verbatim>\<open>trim\<close>,
  \<^verbatim>\<open>toLowerCase\<close>, \<^verbatim>\<open>toUpperCase\<close> and \<^verbatim>\<open>\s\<close> are ECMAScript's on these code
  units. A value that may be \<^verbatim>\<open>undefined\<close> is a \<^typ>\<open>string option\<close>.
\<close>

definition dquote :: char where
  "dquote = CHR 0x22"

definition newline :: char where
  "newline = CHR 0x0A"

text \<open>
  White space and line terminators: tab, line feed, vertical tab, form feed, carriage
  return, space and the no-break space U+00A0 (the others lie above U+00FF).
\<close>

definition isWhite :: "char \<Rightarrow> bool" where
  "isWhite c = (c = CHR '' '' \<or> c = CHR 0x09 \<or> c = CHR 0x0A \<or> c = CHR 0x0B
                \<or> c = CHR 0x0C \<or> c = CHR 0x0D \<or> c = CHR 0xA0)"

definition trimStart :: "string \<Rightarrow> string" where
  "trimStart s = dropWhile isWhite s"

definition trim :: "string \<Rightarrow> string" where
  "trim s = rev (dropWhile isWhite (rev (dropWhile isWhite s)))"

definition charCode :: "char \<Rightarrow> nat" where
  "charCode c = of_char c"

definition isDigit :: "char \<Rightarrow> bool" where
  "isDigit c = (48 \<le> charCode c \<and> charCode c \<le> 57)"

definition isUpper :: "char \<Rightarrow> bool" where
  "isUpper c = (65 \<le> charCode c \<and> charCode c \<le> 90)"

definition isLower :: "char \<Rightarrow> bool" where
  "isLower c = (97 \<le> charCode c \<and> charCode c \<le> 122)"

text \<open>
  The letters that have another case: A to Z, and the Latin-1 letters U+00C0 to U+00DE
  (but the multiplication sign U+00D7) with their lower-case forms U+00E0 to U+00FE (but
  the division sign U+00F7).
\<close>

definition upperLetters :: string where
  "upperLetters = ''ABCDEFGHIJKLMNOPQRSTUVWXYZ''
     @ [CHR 0xC0, CHR 0xC1, CHR 0xC2, CHR 0xC3, CHR 0xC4, CHR 0xC5, CHR 0xC6, CHR 0xC7,
        CHR 0xC8, CHR 0xC9, CHR 0xCA, CHR 0xCB, CHR 0xCC, CHR 0xCD, CHR 0xCE, CHR 0xCF,
        CHR 0xD0, CHR 0xD1, CHR 0xD2, CHR 0xD3, CHR 0xD4, CHR 0xD5, CHR 0xD6,
        CHR 0xD8, CHR 0xD9, CHR 0xDA, CHR 0xDB, CHR 0xDC, CHR 0xDD, CHR 0xDE]"

definition lowerLetters :: string where
  "lowerLetters = ''abcdefghijklmnopqrstuvwxyz''
     @ [CHR 0xE0, CHR 0xE1, CHR 0xE2, CHR 0xE3, CHR 0xE4, CHR 0xE5, CHR 0xE6, CHR 0xE7,
        CHR 0xE8, CHR 0xE9, CHR 0xEA, CHR 0xEB, CHR 0xEC, CHR 0xED, CHR 0xEE, CHR 0xEF,
        CHR 0xF0, CHR 0xF1, CHR 0xF2, CHR 0xF3, CHR 0xF4, CHR 0xF5, CHR 0xF6,
        CHR 0xF8, CHR 0xF9, CHR 0xFA, CHR 0xFB, CHR 0xFC, CHR 0xFD, CHR 0xFE]"

definition lowerChar :: "char \<Rightarrow> char" where
  "lowerChar c = (case map_of (zip upperLetters lowerLetters) c of Some d \<Rightarrow> d | None \<Rightarrow> c)"

definition upperChar :: "char \<Rightarrow> char" where
  "upperChar c = (case map_of (zip lowerLetters upperLetters) c of Some d \<Rightarrow> d | None \<Rightarrow> c)"

definition toLowerCase :: "string \<Rightarrow> string" where
  "toLowerCase s = map lowerChar s"

text \<open>
  \<^verbatim>\<open>toUpperCase\<close> writes the sharp s U+00DF as \<^verbatim>\<open>SS\<close>. The upper-case forms of
  U+00B5 and U+00FF lie above U+00FF: the two are left as they are, which no pattern of
  the program tells from their upper-case forms.
\<close>

definition upperUnits :: "char \<Rightarrow> string" where
  "upperUnits c = (if c = CHR 0xDF then ''SS'' else [upperChar c])"

definition toUpperCase :: "string \<Rightarrow> string" where
  "toUpperCase s = concat (map upperUnits s)"

text \<open>\<^verbatim>\<open>a || b\<close> on possibly undefined strings: the empty string is falsy.\<close>

definition truthy :: "string option \<Rightarrow> bool" where
  "truthy v = (case v of None \<Rightarrow> False | Some s \<Rightarrow> s \<noteq> [])"

definition orElse :: "string option \<Rightarrow> string option \<Rightarrow> string option" where
  "orElse a b = (if truthy a then a else b)"

definition orDefault :: "string option \<Rightarrow> string \<Rightarrow> string" where
  "orDefault a d = (case a of None \<Rightarrow> d | Some s \<Rightarrow> if s = [] then d else s)"

text \<open>\<^verbatim>\<open>s.includes(sub)\<close>.\<close>

fun includes_str :: "string \<Rightarrow> string \<Rightarrow> bool" where
  "includes_str [] sub = (sub = [])"
| "includes_str (c # cs) sub = (take (length sub) (c # cs) = sub \<or> includes_str cs sub)"

text \<open>\<^verbatim>\<open>s.replace(/"/g, '')\<close>.\<close>

definition stripQuotes :: "string \<Rightarrow> string" where
  "stripQuotes s = filter (\<lambda>c. c \<noteq> dquote) s"

text \<open>\<^verbatim>\<open>s.split(c)\<close> for a one-character separator: never the empty list.\<close>

fun split_on :: "char \<Rightarrow> string \<Rightarrow> string list" where
  "split_on sep [] = [[]]"
| "split_on sep (c # cs) =
     (if c = sep then [] # split_on sep cs
      else (case split_on sep cs of
              [] \<Rightarrow> [[c]]
            | l # ls \<Rightarrow> (c # l) # ls))"

section \<open>CSV parsing\<close>

text \<open>
  A raw record is \<^verbatim>\<open>Record<string, string>\<close>: a map from column name to value.
\<close>

type_synonym raw_record = "string \<rightharpoonup> string"

text \<open>
  \<^verbatim>\<open>parseCSVLine\<close>: the loop over the characters of a line, with its three variables
  \<^verbatim>\<open>result\<close>, \<^verbatim>\<open>current\<close> and \<^verbatim>\<open>inQuotes\<close>.
\<close>

fun parseCSVLine_loop :: "string \<Rightarrow> string list \<Rightarrow> string \<Rightarrow> bool \<Rightarrow> string list" where
  "parseCSVLine_loop [] result current inQuotes = result @ [trim current]"
| "parseCSVLine_loop (c # cs) result current inQuotes =
     (if c = dquote then parseCSVLine_loop cs result current (\<not> inQuotes)
      else if c = CHR '','' \<and> \<not> inQuotes then parseCSVLine_loop cs (result @ [trim current]) [] inQuotes
      else parseCSVLine_loop cs result (current @ [c]) inQuotes)"

definition parseCSVLine :: "string \<Rightarrow> string list" where
  "parseCSVLine line = parseCSVLine_loop line [] [] False"

text \<open>
  \<^verbatim>\<open>headers.forEach((header, idx) => { record[header] = values[idx]?.replace(/"/g, '') || ''; })\<close>:
  \<^verbatim>\<open>values[idx]\<close> is undefined from \<^verbatim>\<open>values.length\<close> on, and a later header of the
  same name overwrites an earlier one. The record is an object literal: the assignment to
  \<^verbatim>\<open>record['__proto__']\<close> goes to the setter that the object inherits, which ignores a
  string, so no column is stored under that name.
\<close>

definition fieldAt :: "string list \<Rightarrow> nat \<Rightarrow> string" where
  "fieldAt vals idx = (if idx < length vals then stripQuotes (vals ! idx) else [])"

fun makeRecord_loop :: "string list \<Rightarrow> nat \<Rightarrow> string list \<Rightarrow> raw_record \<Rightarrow> raw_record" where
  "makeRecord_loop [] idx vals record = record"
| "makeRecord_loop (header # hs) idx vals record =
     makeRecord_loop hs (Suc idx) vals
       (if header = ''__proto__'' then record else record(header \<mapsto> fieldAt vals idx))"

definition makeRecord :: "string list \<Rightarrow> string list \<Rightarrow> raw_record" where
  "makeRecord headers vals = makeRecord_loop headers 0 vals Map.empty"

fun parseCSV_rows :: "string list \<Rightarrow> string list \<Rightarrow> raw_record list" where
  "parseCSV_rows headers [] = []"
| "parseCSV_rows headers (l # ls) =
     (let line = trim l in
      if line = [] then parseCSV_rows headers ls
      else makeRecord headers (parseCSVLine line) # parseCSV_rows headers ls)"

definition parseCSV :: "string \<Rightarrow> raw_record list" where
  "parseCSV csvText =
     (let lines = split_on newline csvText in
      if length lines < 2 then []
      else parseCSV_rows (map (\<lambda>h. trim (stripQuotes h)) (parseCSVLine (hd lines))) (tl lines))"

text \<open>Writing a row: a field between double quotes, fields joined by commas.\<close>

definition csvQuoted :: "string \<Rightarrow> string" where
  "csvQuoted f = dquote # f @ [dquote]"

fun csvJoin :: "string list \<Rightarrow> string" where
  "csvJoin [] = []"
| "csvJoin [f] = f"
| "csvJoin (f # g # fs) = f @ CHR '','' # csvJoin (g # fs)"

definition smithRow :: string where
  "smithRow = csvQuoted ''Smith, John'' @ '','' @ csvQuoted ''collision''"

text \<open>
  What section 4.1 asks of the scanner, read off a line without the three variables of
  the loop: a quote character switches between outside and inside and is dropped, a comma
  met outside ends a field, and any other character belongs to the field it is met in.
  \<^term>\<open>unquotedFields q line\<close> are the fields of \<^term>\<open>line\<close> read from the state
  \<^term>\<open>q\<close> (inside quotes or not), before trimming.
\<close>

fun unquotedFields :: "bool \<Rightarrow> string \<Rightarrow> string list" where
  "unquotedFields q [] = [[]]"
| "unquotedFields q (c # cs) =
     (if c = dquote then unquotedFields (\<not> q) cs
      else if c = CHR '','' \<and> \<not> q then [] # unquotedFields q cs
      else (c # hd (unquotedFields q cs)) # tl (unquotedFields q cs))"

text \<open>The commas of a line that stand outside quotes.\<close>

fun separators :: "bool \<Rightarrow> string \<Rightarrow> nat" where
  "separators q [] = 0"
| "separators q (c # cs) =
     (if c = dquote then separators (\<not> q) cs
      else if c = CHR '','' \<and> \<not> q then Suc (separators q cs)
      else separators q cs)"

text \<open>A file whose second column is named \<^verbatim>\<open>__proto__\<close> and whose row is short.\<close>

definition protoCsv :: string where
  "protoCsv = ''Report Number,__proto__'' @ [newline] @ ''R1''"

section \<open>Dates\<close>

text \<open>
  A JavaScript \<^verbatim>\<open>Date\<close> holds a time value: milliseconds since the epoch, UTC. The
  constructor \<^verbatim>\<open>new Date(year, month, day)\<close> and \<^verbatim>\<open>setHours\<close> work in local time;
  the day and time arithmetic below is ECMAScript's (MakeDay, MakeTime, MakeDate). What the
  host decides is a parameter: the conversion between local time and UTC, and
  \<^verbatim>\<open>Date.parse\<close> on a string (\<^const>\<open>None\<close> is an invalid date). TimeClip is left out:
  it is the identity on the dates that four-digit years give.
\<close>

record date_env =
  toUTC :: "int \<Rightarrow> int"
  toLocal :: "int \<Rightarrow> int"
  dateParse :: "string \<Rightarrow> int option"

definition msPerDay :: int where
  "msPerDay = 86400000"

definition msPerHour :: int where
  "msPerHour = 3600000"

definition msPerMinute :: int where
  "msPerMinute = 60000"

definition msPerSecond :: int where
  "msPerSecond = 1000"

definition DayFromYear :: "int \<Rightarrow> int" where
  "DayFromYear y = 365 * (y - 1970) + (y - 1969) div 4 - (y - 1901) div 100 + (y - 1601) div 400"

definition InLeapYear :: "int \<Rightarrow> bool" where
  "InLeapYear y = (if y mod 4 = 0 then (if y mod 100 = 0 then y mod 400 = 0 else True) else False)"

definition monthStart :: "int \<Rightarrow> bool \<Rightarrow> int" where
  "monthStart mn leap =
     [0, 31, 59, 90, 120, 151, 181, 212, 243, 273, 304, 334] ! nat mn
       + (if leap \<and> 2 \<le> mn then 1 else 0)"

definition MakeDay :: "int \<Rightarrow> int \<Rightarrow> int \<Rightarrow> int" where
  "MakeDay year month date =
     (let ym = year + month div 12; mn = month mod 12
      in DayFromYear ym + monthStart mn (InLeapYear ym) + date - 1)"

definition MakeTime :: "int \<Rightarrow> int \<Rightarrow> int \<Rightarrow> int \<Rightarrow> int" where
  "MakeTime hour minute sec ms = hour * msPerHour + minute * msPerMinute + sec * msPerSecond + ms"

definition MakeDate :: "int \<Rightarrow> int \<Rightarrow> int" where
  "MakeDate day time = day * msPerDay + time"

definition Day :: "int \<Rightarrow> int" where
  "Day t = t div msPerDay"

definition SecFromTime :: "int \<Rightarrow> int" where
  "SecFromTime t = (t div msPerSecond) mod 60"

definition msFromTime :: "int \<Rightarrow> int" where
  "msFromTime t = t mod msPerSecond"

text \<open>\<^verbatim>\<open>new Date(year, month, day)\<close>: a year from 0 to 99 means 1900 + year.\<close>

definition newDate :: "date_env \<Rightarrow> int \<Rightarrow> int \<Rightarrow> int \<Rightarrow> int" where
  "newDate e year month day =
     (let yr = (if 0 \<le> year \<and> year \<le> 99 then 1900 + year else year)
      in toUTC e (MakeDate (MakeDay yr month day) (MakeTime 0 0 0 0)))"

text \<open>\<^verbatim>\<open>date.setHours(hour, min)\<close>.\<close>

definition setHours :: "date_env \<Rightarrow> int \<Rightarrow> int \<Rightarrow> int \<Rightarrow> int" where
  "setHours e tv hour minute =
     (let t = toLocal e tv
      in toUTC e (MakeDate (Day t) (MakeTime hour minute (SecFromTime t) (msFromTime t))))"

text \<open>\<^verbatim>\<open>parseInt(s, 10)\<close> on a string of decimal digits.\<close>

definition digitVal :: "char \<Rightarrow> int" where
  "digitVal c = int (charCode c) - 48"

definition parseDigits :: "string \<Rightarrow> int" where
  "parseDigits s = foldl (\<lambda>n c. 10 * n + digitVal c) 0 s"

definition MONTH_MAP :: "string \<rightharpoonup> int" where
  "MONTH_MAP = map_of
     [(''JAN'', 0), (''FEB'', 1), (''MAR'', 2), (''APR'', 3), (''MAY'', 4), (''JUN'', 5),
      (''JUL'', 6), (''AUG'', 7), (''SEP'', 8), (''OCT'', 9), (''NOV'', 10), (''DEC'', 11)]"

text \<open>
  The regular expressions of \<^verbatim>\<open>parseNHTSADate\<close>. \<^verbatim>\<open>/^([A-Z]{3})-(\d{4})$/\<close>:
\<close>

definition monthYearMatch :: "string \<Rightarrow> (string \<times> string) option" where
  "monthYearMatch s =
     (if length s = 8 \<and> list_all isUpper (take 3 s) \<and> s ! 3 = CHR ''-'' \<and> list_all isDigit (drop 4 s)
      then Some (take 3 s, drop 4 s) else None)"

text \<open>\<^verbatim>\<open>/^(\d{1,2})\/(\d{1,2})\/(\d{4})$/\<close>: three runs of digits between slashes.\<close>

definition mdyMatch :: "string \<Rightarrow> (string \<times> string \<times> string) option" where
  "mdyMatch s =
     (case split_on (CHR ''/'') s of
        [m, d, y] \<Rightarrow>
          if list_all isDigit m \<and> 1 \<le> length m \<and> length m \<le> 2
             \<and> list_all isDigit d \<and> 1 \<le> length d \<and> length d \<le> 2
             \<and> list_all isDigit y \<and> length y = 4
          then Some (m, d, y) else None
      | _ \<Rightarrow> None)"

text \<open>\<^verbatim>\<open>/^(\d{4})-(\d{2})-(\d{2})$/\<close>.\<close>

definition isoMatch :: "string \<Rightarrow> bool" where
  "isoMatch s =
     (length s = 10 \<and> list_all isDigit (take 4 s) \<and> s ! 4 = CHR ''-''
      \<and> list_all isDigit (take 2 (drop 5 s)) \<and> s ! 7 = CHR ''-'' \<and> list_all isDigit (drop 8 s))"

text \<open>
  \<^verbatim>\<open>/(\d{1,2}):(\d{2})/\<close> is not anchored: the leftmost match, two digits of hours
  before one (where two digits stand, the second is not a colon, so giving one back
  cannot match).
\<close>

fun timeAt :: "string \<Rightarrow> (string \<times> string) option" where
  "timeAt (a # b # c # d # e # rest) =
     (if isDigit a \<and> isDigit b \<and> c = CHR '':'' \<and> isDigit d \<and> isDigit e then Some ([a, b], [d, e])
      else if isDigit a \<and> b = CHR '':'' \<and> isDigit c \<and> isDigit d then Some ([a], [c, d])
      else None)"
| "timeAt [a, b, c, d] =
     (if isDigit a \<and> b = CHR '':'' \<and> isDigit c \<and> isDigit d then Some ([a], [c, d]) else None)"
| "timeAt s = None"

fun timeMatch :: "string \<Rightarrow> (string \<times> string) option" where
  "timeMatch [] = None"
| "timeMatch (c # cs) = (case timeAt (c # cs) of Some r \<Rightarrow> Some r | None \<Rightarrow> timeMatch cs)"

text \<open>
  \<^verbatim>\<open>if (timeStr) { const timeParts = timeStr.match(...); if (timeParts) date.setHours(...) }\<close>
\<close>

definition applyTime :: "date_env \<Rightarrow> int \<Rightarrow> string option \<Rightarrow> int" where
  "applyTime e date timeStr =
     (if truthy timeStr then
        (case timeMatch (the timeStr) of
           Some (h, m) \<Rightarrow> setHours e date (parseDigits h) (parseDigits m)
         | None \<Rightarrow> date)
      else date)"

text \<open>The four attempts of \<^verbatim>\<open>parseNHTSADate\<close>, in the order of the source.\<close>

definition parseMonthYear :: "date_env \<Rightarrow> string \<Rightarrow> string option \<Rightarrow> int option" where
  "parseMonthYear e trimmed timeStr =
     (case monthYearMatch trimmed of
        None \<Rightarrow> None
      | Some (mon, yr) \<Rightarrow>
          (case MONTH_MAP mon of
             None \<Rightarrow> None
           | Some month \<Rightarrow>
               let year = parseDigits yr in
               if year \<noteq> 0 then Some (applyTime e (newDate e year month 1) timeStr) else None))"

definition parseMDY :: "date_env \<Rightarrow> string \<Rightarrow> string option \<Rightarrow> int option" where
  "parseMDY e trimmed timeStr =
     (case mdyMatch trimmed of
        None \<Rightarrow> None
      | Some (m, d, y) \<Rightarrow>
          let month = parseDigits m - 1; day = parseDigits d; year = parseDigits y
          in Some (applyTime e (newDate e year month day) timeStr))"

definition parseISO :: "date_env \<Rightarrow> string \<Rightarrow> int option" where
  "parseISO e trimmed = (if isoMatch trimmed then dateParse e trimmed else None)"

definition parseNHTSADate :: "date_env \<Rightarrow> string option \<Rightarrow> string option \<Rightarrow> int option" where
  "parseNHTSADate e dateStr timeStr =
     (if \<not> truthy dateStr then None
      else
        let trimmed = toUpperCase (trim (the dateStr)) in
        (case parseMonthYear e trimmed timeStr of
           Some date \<Rightarrow> Some date
         | None \<Rightarrow>
             (case parseMDY e trimmed timeStr of
                Some date \<Rightarrow> Some date
              | None \<Rightarrow>
                  (case parseISO e trimmed of
                     Some date \<Rightarrow> Some date
                   | None \<Rightarrow> dateParse e (the dateStr)))))"

text \<open>A host in the UTC zone whose \<^verbatim>\<open>Date.parse\<close> accepts nothing.\<close>

definition utcHost :: date_env where
  "utcHost = \<lparr> toUTC = (\<lambda>t. t), toLocal = (\<lambda>t. t), dateParse = (\<lambda>s. None) \<rparr>"

section \<open>Numbers\<close>

text \<open>
  A JavaScript number is a double: NaN, an infinity, or a finite value. The finite values
  are the reals \<^verbatim>\<open>m * 2^e\<close> with \<^verbatim>\<open>|m| < 2^53\<close> and \<^verbatim>\<open>-1074 <= e <= 971\<close>; minus zero
  is not told from zero. The model rounds to a double where the code reads a number from
  a text (\<^verbatim>\<open>parseInt\<close>, \<^verbatim>\<open>parseFloat\<close>) and where it computes the distance that it
  compares with 0.5; the literals of the tables and the two sums of \<^verbatim>\<open>getCoordinates\<close>
  are kept as the reals that they write.
\<close>

datatype number = NaN | NegInfinity | Num real | PosInfinity

definition isNaN :: "number \<Rightarrow> bool" where
  "isNaN n = (case n of NaN \<Rightarrow> True | _ \<Rightarrow> False)"

text \<open>\<^verbatim>\<open>n < r\<close> and \<^verbatim>\<open>n > r\<close> for a finite \<^verbatim>\<open>r\<close>: false on NaN.\<close>

definition numLess :: "number \<Rightarrow> real \<Rightarrow> bool" where
  "numLess n r = (case n of NaN \<Rightarrow> False | NegInfinity \<Rightarrow> True | Num x \<Rightarrow> x < r | PosInfinity \<Rightarrow> False)"

definition numGreater :: "number \<Rightarrow> real \<Rightarrow> bool" where
  "numGreater n r = (case n of NaN \<Rightarrow> False | NegInfinity \<Rightarrow> False | Num x \<Rightarrow> x > r | PosInfinity \<Rightarrow> True)"

text \<open>
  The Number value for a real \<^verbatim>\<open>x\<close> (ECMAScript 6.1.6.1): the double nearest to
  \<^verbatim>\<open>x\<close>, the one with the even significand when two are equally near, and an infinity
  when the rounded value reaches \<^verbatim>\<open>2^1024\<close>. \<^term>\<open>binade x\<close> is the exponent
  \<^verbatim>\<open>b\<close> with \<^verbatim>\<open>2^b <= x < 2^(b+1)\<close>; the doubles around \<^verbatim>\<open>x\<close> are the multiples of
  \<^verbatim>\<open>2^(b-52)\<close>, and of \<^verbatim>\<open>2^(-1074)\<close> below the normal range.
\<close>

definition pow2 :: "int \<Rightarrow> real" where
  "pow2 e = (if 0 \<le> e then 2 ^ nat e else 1 / 2 ^ nat (- e))"

function binade :: "real \<Rightarrow> int" where
  "binade x =
     (if x \<le> 0 then 0
      else if 2 \<le> x then binade (x / 2) + 1
      else if x < 1 then binade (2 * x) - 1
      else 0)"
  by pat_completeness auto
termination
proof (relation "measure (\<lambda>x. if 1 \<le> x then nat \<lfloor>x\<rfloor> else nat \<lceil>1 / x\<rceil>)")
  show "wf (measure (\<lambda>x::real. if 1 \<le> x then nat \<lfloor>x\<rfloor> else nat \<lceil>1 / x\<rceil>))"
    by simp
next
  fix x :: real
  assume a: "\<not> x \<le> 0" "2 \<le> x"
  have "\<lfloor>x / 2\<rfloor> < \<lfloor>x\<rfloor>"
    using a by (simp add: floor_less_iff) linarith
  moreover have "0 < \<lfloor>x\<rfloor>" using a by simp
  ultimately show "(x / 2, x) \<in> measure (\<lambda>x. if 1 \<le> x then nat \<lfloor>x\<rfloor> else nat \<lceil>1 / x\<rceil>)"
    using a by simp
next
  fix x :: real
  assume a: "\<not> x \<le> 0" "\<not> 2 \<le> x" "x < 1"
  show "(2 * x, x) \<in> measure (\<lambda>x. if 1 \<le> x then nat \<lfloor>x\<rfloor> else nat \<lceil>1 / x\<rceil>)"
  proof (cases "1 \<le> 2 * x")
    case True
    have "\<lfloor>2 * x\<rfloor> = 1" using True a by (simp add: floor_eq_iff)
    moreover have "1 < 1 / x" using a by simp
    hence "2 \<le> \<lceil>1 / x\<rceil>" by (simp add: le_ceiling_iff)
    ultimately show ?thesis using True a by simp
  next
    case False
    have h: "2 < 1 / x" using False a by (simp add: field_simps)
    have "\<lceil>(1 / x) / 2\<rceil> < \<lceil>1 / x\<rceil>"
      using h by (simp add: ceiling_less_iff less_ceiling_iff) linarith
    moreover have "0 < \<lceil>1 / x\<rceil>" using h a by (simp add: less_ceiling_iff)
    ultimately show ?thesis using False a by (simp add: mult.commute)
  qed
qed

declare binade.simps [simp del]

text \<open>The integer nearest to \<^verbatim>\<open>y\<close>, the even one of two that are equally near.\<close>

definition roundEven :: "real \<Rightarrow> int" where
  "roundEven y =
     (let f = \<lfloor>y\<rfloor>; d = y - of_int f
      in if d < 1 / 2 then f else if 1 / 2 < d then f + 1 else if even f then f else f + 1)"

definition ulpExponent :: "real \<Rightarrow> int" where
  "ulpExponent x = max (binade \<bar>x\<bar> - 52) (- 1074)"

definition roundToDouble :: "real \<Rightarrow> real" where
  "roundToDouble x =
     (if x = 0 then 0
      else of_int (roundEven (x / pow2 (ulpExponent x))) * pow2 (ulpExponent x))"

definition overflows :: "real \<Rightarrow> bool" where
  "overflows y = (y \<noteq> 0 \<and> 1024 \<le> binade \<bar>y\<bar>)"

definition numberValue :: "real \<Rightarrow> number" where
  "numberValue x =
     (let y = roundToDouble x
      in if overflows y then (if 0 < y then PosInfinity else NegInfinity) else Num y)"

text \<open>
  \<^verbatim>\<open>parseInt(s)\<close> with no radix: leading white space, a sign, \<^verbatim>\<open>0x\<close> for radix 16,
  then the longest run of digits; no digit is NaN. The result is the Number value of the
  integer that the digits write: it is rounded from 2^53 on and infinite for a run of
  some 309 decimal digits. (An engine may drop the decimal digits after the twentieth;
  V8 rounds the exact integer.)
\<close>

definition isHexDigit :: "char \<Rightarrow> bool" where
  "isHexDigit c = (isDigit c \<or> (97 \<le> charCode c \<and> charCode c \<le> 102) \<or> (65 \<le> charCode c \<and> charCode c \<le> 70))"

definition hexVal :: "char \<Rightarrow> int" where
  "hexVal c = (if isDigit c then int (charCode c) - 48
               else if 97 \<le> charCode c then int (charCode c) - 87
               else int (charCode c) - 55)"

definition parseHexDigits :: "string \<Rightarrow> int" where
  "parseHexDigits s = foldl (\<lambda>n c. 16 * n + hexVal c) 0 s"

definition parseUnsigned :: "string \<Rightarrow> int option" where
  "parseUnsigned s =
     (if take 2 s = ''0x'' \<or> take 2 s = ''0X'' then
        (let z = takeWhile isHexDigit (drop 2 s) in if z = [] then None else Some (parseHexDigits z))
      else
        (let z = takeWhile isDigit s in if z = [] then None else Some (parseDigits z)))"

definition signedInteger :: "bool \<Rightarrow> string \<Rightarrow> number" where
  "signedInteger neg s =
     (case parseUnsigned s of
        None \<Rightarrow> NaN
      | Some n \<Rightarrow> numberValue (if neg then - real_of_int n else real_of_int n))"

definition parseInt :: "string \<Rightarrow> number" where
  "parseInt str =
     (let s = trimStart str in
      case s of
        [] \<Rightarrow> NaN
      | c # cs \<Rightarrow>
          if c = CHR ''-'' then signedInteger True cs
          else if c = CHR ''+'' then signedInteger False cs
          else signedInteger False s)"

text \<open>
  \<^verbatim>\<open>parseInt(record[k1] || record[k2] || '0') || 0\<close>: NaN and zero are falsy, every
  other number is kept.
\<close>

definition countSource :: "raw_record \<Rightarrow> string \<Rightarrow> string \<Rightarrow> string" where
  "countSource r k1 k2 = orDefault (orElse (r k1) (r k2)) ''0''"

definition orZero :: "number \<Rightarrow> number" where
  "orZero n = (if isNaN n \<or> n = Num 0 then Num 0 else n)"

definition countField :: "raw_record \<Rightarrow> string \<Rightarrow> string \<Rightarrow> number" where
  "countField r k1 k2 = orZero (parseInt (countSource r k1 k2))"

text \<open>
  The texts that claim C7 calls numeric: after leading white space and one sign, a digit.
  Any other text is non-numeric.
\<close>

definition numericText :: "string \<Rightarrow> bool" where
  "numericText s =
     (let t = trimStart s;
          u = (if take 1 t = ''-'' \<or> take 1 t = ''+'' then drop 1 t else t)
      in u \<noteq> [] \<and> isDigit (hd u))"

text \<open>A number that is a non-negative integer.\<close>

definition isCount :: "number \<Rightarrow> bool" where
  "isCount n = (case n of Num x \<Rightarrow> 0 \<le> x \<and> x = of_int \<lfloor>x\<rfloor> | _ \<Rightarrow> False)"

text \<open>
  \<^verbatim>\<open>parseFloat(s)\<close>: leading white space, a sign, \<^verbatim>\<open>Infinity\<close> or the longest prefix
  that is a decimal literal (digits, a fraction, an exponent with at least one digit);
  the result is the Number value of the decimal.
\<close>

definition exponentPart :: "string \<Rightarrow> int" where
  "exponentPart s =
     (case s of
        [] \<Rightarrow> 0
      | c # cs \<Rightarrow>
          if c = CHR ''e'' \<or> c = CHR ''E'' then
            (case cs of
               [] \<Rightarrow> 0
             | d # ds \<Rightarrow>
                 if d = CHR ''-'' then (let z = takeWhile isDigit ds in if z = [] then 0 else - parseDigits z)
                 else if d = CHR ''+'' then (let z = takeWhile isDigit ds in if z = [] then 0 else parseDigits z)
                 else (let z = takeWhile isDigit cs in if z = [] then 0 else parseDigits z))
          else 0)"

definition scale10 :: "real \<Rightarrow> int \<Rightarrow> real" where
  "scale10 x ex = (if 0 \<le> ex then x * 10 ^ nat ex else x / 10 ^ nat (- ex))"

definition unsignedDecimal :: "string \<Rightarrow> real option" where
  "unsignedDecimal s =
     (let ip = takeWhile isDigit s;
          r1 = dropWhile isDigit s;
          fp = (case r1 of [] \<Rightarrow> [] | c # cs \<Rightarrow> if c = CHR ''.'' then takeWhile isDigit cs else []);
          r2 = (case r1 of [] \<Rightarrow> [] | c # cs \<Rightarrow> if c = CHR ''.'' then dropWhile isDigit cs else r1)
      in if ip = [] \<and> fp = [] then None
         else Some (scale10 (real_of_int (parseDigits ip) + real_of_int (parseDigits fp) / 10 ^ length fp)
                      (exponentPart r2)))"

definition signedDecimal :: "bool \<Rightarrow> string \<Rightarrow> number" where
  "signedDecimal neg s =
     (if take 8 s = ''Infinity'' then (if neg then NegInfinity else PosInfinity)
      else (case unsignedDecimal s of
              None \<Rightarrow> NaN
            | Some x \<Rightarrow> numberValue (if neg then - x else x)))"

definition parseFloat :: "string \<Rightarrow> number" where
  "parseFloat str =
     (let s = trimStart str in
      case s of
        [] \<Rightarrow> NaN
      | c # cs \<Rightarrow>
          if c = CHR ''-'' then signedDecimal True cs
          else if c = CHR ''+'' then signedDecimal False cs
          else signedDecimal False s)"

text \<open>A number written in a template string, for \<^verbatim>\<open>`ADS-${index}`\<close>.\<close>

definition digitChar :: "nat \<Rightarrow> char" where
  "digitChar n = ''0123456789'' ! n"

fun showNat :: "nat \<Rightarrow> string" where
  "showNat n = (if n < 10 then [digitChar n] else showNat (n div 10) @ [digitChar (n mod 10)])"

declare showNat.simps [simp del]

section \<open>Mapping tables\<close>

definition mapCompany :: "string \<Rightarrow> string" where
  "mapCompany manufacturer =
     (let name = toLowerCase manufacturer in
      if includes_str name ''waymo'' \<or> includes_str name ''alphabet'' then ''waymo''
      else if includes_str name ''cruise'' \<or> includes_str name ''gm'' then ''cruise''
      else if includes_str name ''zoox'' \<or> includes_str name ''amazon'' then ''zoox''
      else if includes_str name ''tesla'' then ''tesla''
      else ''other'')"

definition mapIncidentType :: "raw_record \<Rightarrow> string" where
  "mapIncidentType r =
     (let crashed = (case r ''Crash'' of None \<Rightarrow> [] | Some s \<Rightarrow> toLowerCase s);
          severity = (case r ''Highest Injury Severity Reported'' of None \<Rightarrow> [] | Some s \<Rightarrow> toLowerCase s)
      in if crashed = ''yes'' \<or> includes_str severity ''fatal'' \<or> includes_str severity ''serious''
         then ''collision''
         else if includes_str severity ''minor'' \<or> includes_str severity ''possible'' then ''near_miss''
         else ''collision'')"

section \<open>Geocoding\<close>

record GeocodedLocation =
  g_lat :: real
  g_lng :: real
  displayName :: string

text \<open>
  \<^verbatim>\<open>Map<string, GeocodedLocation | null>\<close>: a key is absent, or cached as not found
  (\<^term>\<open>Some None\<close>), or cached with a location. \<^verbatim>\<open>cache.get(key) || null\<close> and the
  test \<^verbatim>\<open>if (cached)\<close> do not tell the first two apart.
\<close>

type_synonym geocache = "string \<rightharpoonup> GeocodedLocation option"

definition cacheGet :: "geocache \<Rightarrow> string \<Rightarrow> GeocodedLocation option" where
  "cacheGet cache k = (case cache k of None \<Rightarrow> None | Some v \<Rightarrow> v)"

text \<open>
  The geocoding service is outside the program: a request either throws, or answers with a
  status that is not ok, or answers with a list of features (none when \<^verbatim>\<open>data.features\<close>
  is missing), each with a center and a place name.
\<close>

record feature =
  center_lng :: real
  center_lat :: real
  place_name :: string

datatype fetch_result = NetworkError | NotOk | Json "feature list"

record state_coord =
  s_lat :: real
  s_lng :: real
  s_city :: string

definition STATE_COORDS_table :: "(string \<times> state_coord) list" where
  "STATE_COORDS_table =
     [
      (''CA'', \<lparr> s_lat = 37.7749, s_lng = - 122.4194, s_city = ''San Francisco'' \<rparr>),
      (''TX'', \<lparr> s_lat = 30.2672, s_lng = - 97.7431, s_city = ''Austin'' \<rparr>),
      (''AZ'', \<lparr> s_lat = 33.4484, s_lng = - 112.0740, s_city = ''Phoenix'' \<rparr>),
      (''FL'', \<lparr> s_lat = 28.5383, s_lng = - 81.3792, s_city = ''Orlando'' \<rparr>),
      (''NY'', \<lparr> s_lat = 40.7128, s_lng = - 74.0060, s_city = ''New York'' \<rparr>),
      (''WA'', \<lparr> s_lat = 47.6062, s_lng = - 122.3321, s_city = ''Seattle'' \<rparr>),
      (''NV'', \<lparr> s_lat = 36.1699, s_lng = - 115.1398, s_city = ''Las Vegas'' \<rparr>),
      (''MI'', \<lparr> s_lat = 42.3314, s_lng = - 83.0458, s_city = ''Detroit'' \<rparr>),
      (''PA'', \<lparr> s_lat = 40.4406, s_lng = - 79.9959, s_city = ''Pittsburgh'' \<rparr>),
      (''CO'', \<lparr> s_lat = 39.7392, s_lng = - 104.9903, s_city = ''Denver'' \<rparr>),
      (''MA'', \<lparr> s_lat = 42.3601, s_lng = - 71.0589, s_city = ''Boston'' \<rparr>),
      (''IL'', \<lparr> s_lat = 41.8781, s_lng = - 87.6298, s_city = ''Chicago'' \<rparr>),
      (''GA'', \<lparr> s_lat = 33.7490, s_lng = - 84.3880, s_city = ''Atlanta'' \<rparr>),
      (''NC'', \<lparr> s_lat = 35.2271, s_lng = - 80.8431, s_city = ''Charlotte'' \<rparr>),
      (''OH'', \<lparr> s_lat = 39.9612, s_lng = - 82.9988, s_city = ''Columbus'' \<rparr>),
      (''NJ'', \<lparr> s_lat = 40.0583, s_lng = - 74.4057, s_city = ''Trenton'' \<rparr>),
      (''VA'', \<lparr> s_lat = 37.4316, s_lng = - 78.6569, s_city = ''Richmond'' \<rparr>),
      (''MD'', \<lparr> s_lat = 39.0458, s_lng = - 76.6413, s_city = ''Baltimore'' \<rparr>),
      (''OR'', \<lparr> s_lat = 45.5152, s_lng = - 122.6784, s_city = ''Portland'' \<rparr>),
      (''TN'', \<lparr> s_lat = 36.1627, s_lng = - 86.7816, s_city = ''Nashville'' \<rparr>),
      (''IN'', \<lparr> s_lat = 39.7684, s_lng = - 86.1581, s_city = ''Indianapolis'' \<rparr>),
      (''MN'', \<lparr> s_lat = 44.9778, s_lng = - 93.2650, s_city = ''Minneapolis'' \<rparr>),
      (''WI'', \<lparr> s_lat = 43.0389, s_lng = - 87.9065, s_city = ''Milwaukee'' \<rparr>),
      (''SC'', \<lparr> s_lat = 32.7765, s_lng = - 79.9311, s_city = ''Charleston'' \<rparr>),
      (''AL'', \<lparr> s_lat = 33.5207, s_lng = - 86.8025, s_city = ''Birmingham'' \<rparr>),
      (''LA'', \<lparr> s_lat = 29.9511, s_lng = - 90.0715, s_city = ''New Orleans'' \<rparr>),
      (''KY'', \<lparr> s_lat = 38.2527, s_lng = - 85.7585, s_city = ''Louisville'' \<rparr>),
      (''OK'', \<lparr> s_lat = 35.4676, s_lng = - 97.5164, s_city = ''Oklahoma City'' \<rparr>),
      (''CT'', \<lparr> s_lat = 41.3083, s_lng = - 72.9279, s_city = ''New Haven'' \<rparr>),
      (''UT'', \<lparr> s_lat = 40.7608, s_lng = - 111.8910, s_city = ''Salt Lake City'' \<rparr>),
      (''IA'', \<lparr> s_lat = 41.5868, s_lng = - 93.6250, s_city = ''Des Moines'' \<rparr>),
      (''NE'', \<lparr> s_lat = 41.2565, s_lng = - 95.9345, s_city = ''Omaha'' \<rparr>),
      (''KS'', \<lparr> s_lat = 39.0997, s_lng = - 94.5786, s_city = ''Kansas City'' \<rparr>),
      (''NM'', \<lparr> s_lat = 35.0844, s_lng = - 106.6504, s_city = ''Albuquerque'' \<rparr>),
      (''HI'', \<lparr> s_lat = 21.3069, s_lng = - 157.8583, s_city = ''Honolulu'' \<rparr>),
      (''ID'', \<lparr> s_lat = 43.6150, s_lng = - 116.2023, s_city = ''Boise'' \<rparr>),
      (''WV'', \<lparr> s_lat = 38.3498, s_lng = - 81.6326, s_city = ''Charleston'' \<rparr>),
      (''ME'', \<lparr> s_lat = 43.6591, s_lng = - 70.2568, s_city = ''Portland'' \<rparr>),
      (''NH'', \<lparr> s_lat = 43.2081, s_lng = - 71.5376, s_city = ''Concord'' \<rparr>),
      (''RI'', \<lparr> s_lat = 41.8240, s_lng = - 71.4128, s_city = ''Providence'' \<rparr>),
      (''MT'', \<lparr> s_lat = 46.8797, s_lng = - 110.3626, s_city = ''Billings'' \<rparr>),
      (''DE'', \<lparr> s_lat = 39.1582, s_lng = - 75.5244, s_city = ''Wilmington'' \<rparr>),
      (''SD'', \<lparr> s_lat = 43.5460, s_lng = - 96.7313, s_city = ''Sioux Falls'' \<rparr>),
      (''ND'', \<lparr> s_lat = 46.8772, s_lng = - 96.7898, s_city = ''Fargo'' \<rparr>),
      (''AK'', \<lparr> s_lat = 61.2181, s_lng = - 149.9003, s_city = ''Anchorage'' \<rparr>),
      (''VT'', \<lparr> s_lat = 44.4759, s_lng = - 73.2121, s_city = ''Burlington'' \<rparr>),
      (''WY'', \<lparr> s_lat = 41.1400, s_lng = - 104.8202, s_city = ''Cheyenne'' \<rparr>),
      (''DC'', \<lparr> s_lat = 38.9072, s_lng = - 77.0369, s_city = ''Washington'' \<rparr>),
      (''PR'', \<lparr> s_lat = 18.4655, s_lng = - 66.1057, s_city = ''San Juan'' \<rparr>),
      (''MO'', \<lparr> s_lat = 38.6270, s_lng = - 90.1994, s_city = ''St. Louis'' \<rparr>),
      (''AR'', \<lparr> s_lat = 34.7465, s_lng = - 92.2896, s_city = ''Little Rock'' \<rparr>),
      (''MS'', \<lparr> s_lat = 32.2988, s_lng = - 90.1848, s_city = ''Jackson'' \<rparr>)
     ]"

text \<open>
  \<^verbatim>\<open>STATE_COORDS\<close> is an object literal, so \<^verbatim>\<open>STATE_COORDS[state]\<close> also finds what
  the object inherits from \<^verbatim>\<open>Object.prototype\<close>: for such a name the lookup is a truthy
  value that has no \<^verbatim>\<open>lat\<close>, \<^verbatim>\<open>lng\<close> or \<^verbatim>\<open>city\<close>.
\<close>

definition objectPrototypeNames :: "string list" where
  "objectPrototypeNames =
     [''constructor'', ''toString'', ''toLocaleString'', ''valueOf'', ''hasOwnProperty'',
      ''isPrototypeOf'', ''propertyIsEnumerable'', ''__proto__'', ''__defineGetter__'',
      ''__defineSetter__'', ''__lookupGetter__'', ''__lookupSetter__'']"

datatype state_lookup = Missing | Inherited | Entry state_coord

definition STATE_COORDS :: "string \<Rightarrow> state_lookup" where
  "STATE_COORDS state =
     (case map_of STATE_COORDS_table state of
        Some e \<Rightarrow> Entry e
      | None \<Rightarrow> if state \<in> set objectPrototypeNames then Inherited else Missing)"

text \<open>\<^verbatim>\<open>STATE_COORDS[state]?.city\<close>.\<close>

definition stateCity :: "string \<Rightarrow> string option" where
  "stateCity state = (case STATE_COORDS state of Entry e \<Rightarrow> Some (s_city e) | _ \<Rightarrow> None)"

record point =
  lat :: number
  lng :: number

definition cityKey :: "string \<Rightarrow> string \<Rightarrow> string" where
  "cityKey city state = toLowerCase city @ '','' @ toLowerCase state"

definition streetKey :: "string \<Rightarrow> string \<Rightarrow> string \<Rightarrow> string" where
  "streetKey address city state =
     ''street:'' @ toLowerCase address @ '','' @ toLowerCase city @ '','' @ toLowerCase state"

text \<open>
  \<^verbatim>\<open>geocodeLocation\<close>: the result and the entry it writes to the city cache (if any).
  The service is asked with the text \<^verbatim>\<open>`${city}, ${state}, USA`\<close>, restricted to places
  and localities.
\<close>

definition geocodeLocation ::
  "(string \<Rightarrow> fetch_result) \<Rightarrow> string \<Rightarrow> string \<Rightarrow> geocache
     \<Rightarrow> GeocodedLocation option \<times> (string \<times> GeocodedLocation option) option" where
  "geocodeLocation cityService city state geocodeCache =
     (let cacheKey = cityKey city state in
      if geocodeCache cacheKey \<noteq> None then (cacheGet geocodeCache cacheKey, None)
      else
        (case cityService (city @ '', '' @ state @ '', USA'') of
           Json (f # fs) \<Rightarrow>
             let result = \<lparr> g_lat = center_lat f, g_lng = center_lng f, displayName = place_name f \<rparr>
             in (Some result, Some (cacheKey, Some result))
         | _ \<Rightarrow> (None, Some (cacheKey, None))))"

text \<open>
  \<^verbatim>\<open>extractLocationFromNarrative\<close>. What the six regular expressions match is a
  parameter: \<^verbatim>\<open>matchPattern k narrative\<close> is \<^verbatim>\<open>narrative.match(patterns[k])\<close>, its first
  match when there is one. The loop over the patterns, the removal of the leading
  preposition and the length test are the source's.
\<close>

fun stripPreposition :: "string list \<Rightarrow> string \<Rightarrow> string" where
  "stripPreposition [] s = s"
| "stripPreposition (p # ps) s =
     (let rest = drop (length p) s in
      if toLowerCase (take (length p) s) = p \<and> rest \<noteq> [] \<and> isWhite (hd rest)
      then dropWhile isWhite rest
      else stripPreposition ps s)"

definition cleanLocation :: "string \<Rightarrow> string" where
  "cleanLocation m = trim (stripPreposition [''on'', ''at'', ''near'', ''intersection of''] m)"

fun extract_loop :: "(nat \<Rightarrow> string \<Rightarrow> string option) \<Rightarrow> string \<Rightarrow> nat list \<Rightarrow> string option" where
  "extract_loop matchPattern narrative [] = None"
| "extract_loop matchPattern narrative (k # ks) =
     (if truthy (matchPattern k narrative) then
        (let location = cleanLocation (the (matchPattern k narrative)) in
         if length location > 5 \<and> length location < 100 then Some location
         else extract_loop matchPattern narrative ks)
      else extract_loop matchPattern narrative ks)"

definition extractLocationFromNarrative :: "(nat \<Rightarrow> string \<Rightarrow> string option) \<Rightarrow> string \<Rightarrow> string option" where
  "extractLocationFromNarrative matchPattern narrative =
     (if narrative = [] then None else extract_loop matchPattern narrative [0, 1, 2, 3, 4, 5])"

text \<open>
  What one call of \<^verbatim>\<open>processADSRecord\<close> or \<^verbatim>\<open>processADASRecord\<close> meets outside the
  program: the answers of the geocoding service to a street query, the matches of the
  narrative patterns, the two draws of \<^verbatim>\<open>Math.random()\<close> that \<^verbatim>\<open>getCoordinates\<close>
  makes, the host's dates and the two readings of the clock.
\<close>

record env =
  streetService :: "string \<Rightarrow> fetch_result"
  matchPattern :: "nat \<Rightarrow> string \<Rightarrow> string option"
  random_lat :: real
  random_lng :: real
  host :: date_env
  now_occurred :: int
  now_reported :: int

text \<open>The calls that the processing of a record makes, in order.\<close>

datatype call = NarrativeExtraction string | StreetGeocodeRequest string

text \<open>
  \<^verbatim>\<open>Math.sqrt(Math.pow(lat - cityCoords.lat, 2) + Math.pow(lng - cityCoords.lng, 2))\<close>
  on doubles: each operation gives the Number value of its exact result, an infinite
  operand gives an infinite result, and no operand here is NaN. The language leaves the
  precision of \<^verbatim>\<open>Math.pow\<close> to the engine; with the exponent 2 it is taken as the
  rounded square, which is what V8 computes. The coordinates that the code meets are
  doubles; the model computes on any reals.
\<close>

definition numSub :: "real \<Rightarrow> real \<Rightarrow> number" where
  "numSub a b = numberValue (a - b)"

definition numSquare :: "number \<Rightarrow> number" where
  "numSquare n = (case n of NaN \<Rightarrow> NaN | Num x \<Rightarrow> numberValue (x * x) | _ \<Rightarrow> PosInfinity)"

definition numAdd :: "number \<Rightarrow> number \<Rightarrow> number" where
  "numAdd a b =
     (case a of
        NaN \<Rightarrow> NaN
      | Num x \<Rightarrow> (case b of Num y \<Rightarrow> numberValue (x + y) | other \<Rightarrow> other)
      | PosInfinity \<Rightarrow> (case b of NaN \<Rightarrow> NaN | NegInfinity \<Rightarrow> NaN | _ \<Rightarrow> PosInfinity)
      | NegInfinity \<Rightarrow> (case b of NaN \<Rightarrow> NaN | PosInfinity \<Rightarrow> NaN | _ \<Rightarrow> NegInfinity))"

definition numSqrt :: "number \<Rightarrow> number" where
  "numSqrt n =
     (case n of
        Num x \<Rightarrow> if x < 0 then NaN else numberValue (sqrt x)
      | PosInfinity \<Rightarrow> PosInfinity
      | _ \<Rightarrow> NaN)"

definition distance :: "real \<Rightarrow> real \<Rightarrow> GeocodedLocation \<Rightarrow> number" where
  "distance la lo cityCoords =
     numSqrt (numAdd (numSquare (numSub la (g_lat cityCoords)))
                     (numSquare (numSub lo (g_lng cityCoords))))"

text \<open>\<^verbatim>\<open>distance > 0.5\<close>\<close>

definition tooFar :: "real \<Rightarrow> real \<Rightarrow> GeocodedLocation \<Rightarrow> bool" where
  "tooFar la lo cityCoords = numGreater (distance la lo cityCoords) 0.5"


text \<open>
  \<^verbatim>\<open>geocodeStreetAddress\<close>: the result, the entry it writes to the street cache (if any)
  and the request it sends (if any). The records of a batch run concurrently: each reads
  the street cache before any of them writes it, so a call gives its write back instead
  of a new cache.
\<close>

type_synonym cache_write = "(string \<times> GeocodedLocation option) option"

definition geocodeStreetAddress ::
  "env \<Rightarrow> geocache \<Rightarrow> geocache \<Rightarrow> string \<Rightarrow> string \<Rightarrow> string
     \<Rightarrow> GeocodedLocation option \<times> cache_write \<times> call list" where
  "geocodeStreetAddress e geocodeCache streetGeocodeCache address city state =
     (let cacheKey = streetKey address city state;
          query = address @ '', '' @ city @ '', '' @ state @ '', USA''
      in
      if streetGeocodeCache cacheKey \<noteq> None then (cacheGet streetGeocodeCache cacheKey, None, [])
      else
        (case streetService e query of
           Json (f # fs) \<Rightarrow>
             let lng = center_lng f; lat = center_lat f;
                 result = \<lparr> g_lat = lat, g_lng = lng, displayName = place_name f \<rparr>
             in
             (case cacheGet geocodeCache (cityKey city state) of
                Some cityCoords \<Rightarrow>
                  if tooFar lat lng cityCoords
                  then (None, Some (cacheKey, None), [StreetGeocodeRequest query])
                  else (Some result, Some (cacheKey, Some result), [StreetGeocodeRequest query])
              | None \<Rightarrow> (Some result, Some (cacheKey, Some result), [StreetGeocodeRequest query]))
         | _ \<Rightarrow> (None, Some (cacheKey, None), [StreetGeocodeRequest query])))"

text \<open>
  \<^verbatim>\<open>getCoordinates\<close>; \<^verbatim>\<open>r1\<close> and \<^verbatim>\<open>r2\<close> are its two draws of \<^verbatim>\<open>Math.random()\<close>.
  An inherited name is truthy, so it is not replaced by the California entry, and its
  \<^verbatim>\<open>lat\<close> and \<^verbatim>\<open>lng\<close> are undefined: the sums are NaN.
\<close>

definition getCoordinates :: "geocache \<Rightarrow> real \<Rightarrow> real \<Rightarrow> string \<Rightarrow> string \<Rightarrow> point" where
  "getCoordinates geocodeCache r1 r2 city state =
     (case cacheGet geocodeCache (cityKey city state) of
        Some cached \<Rightarrow>
          \<lparr> lat = Num (g_lat cached + (r1 - 0.5) * 0.04), lng = Num (g_lng cached + (r2 - 0.5) * 0.04) \<rparr>
      | None \<Rightarrow>
          (case (case STATE_COORDS state of Missing \<Rightarrow> STATE_COORDS ''CA'' | found \<Rightarrow> found) of
             Entry stateCoords \<Rightarrow>
               \<lparr> lat = Num (s_lat stateCoords + (r1 - 0.5) * 0.1),
                 lng = Num (s_lng stateCoords + (r2 - 0.5) * 0.1) \<rparr>
           | _ \<Rightarrow> \<lparr> lat = NaN, lng = NaN \<rparr>))"

definition parseNHTSACoordinates :: "raw_record \<Rightarrow> point option" where
  "parseNHTSACoordinates r =
     (let latStr = map_option trim (r ''Latitude'');
          lngStr = map_option trim (r ''Longitude'');
          latUnknown = (map_option toLowerCase (r ''Latitude - Unknown'') = Some ''yes'');
          lngUnknown = (map_option toLowerCase (r ''Longitude - Unknown'') = Some ''yes'')
      in
      if latUnknown \<or> lngUnknown then None
      else if \<not> truthy latStr \<or> \<not> truthy lngStr then None
      else
        (let la = parseFloat (the latStr); lo = parseFloat (the lngStr) in
         if isNaN la \<or> isNaN lo then None
         else if numLess la 18 \<or> numGreater la 72 \<or> numLess lo (- 180) \<or> numGreater lo (- 65) then None
         else Some \<lparr> lat = la, lng = lo \<rparr>))"

section \<open>Record processing\<close>

text \<open>
  \<^verbatim>\<open>location\<close> is the text \<^verbatim>\<open>`SRID=4326;POINT(${coords.lng} ${coords.lat})`\<close>; the
  model keeps the two numbers. \<^verbatim>\<open>occurred_at\<close> and \<^verbatim>\<open>reported_at\<close> are ISO texts of
  time values; the model keeps the time values.
\<close>

record IncidentInsert =
  incident_type :: string
  av_company :: string
  description :: string
  location :: point
  address :: "string option"
  city :: string
  occurred_at :: int
  reported_at :: int
  status :: string
  source :: string
  external_id :: string
  fatalities :: number
  injuries :: number
  raw_data :: raw_record

record ProcessedIncident =
  incident :: IncidentInsert
  hasRealCoords :: bool
  hasStreetCoords :: bool

record outcome =
  processed :: ProcessedIncident
  cacheWrite :: cache_write
  calls :: "call list"

text \<open>
  \<^verbatim>\<open>const state = record['State'] || 'CA'\<close> and
  \<^verbatim>\<open>const city = record['City'] || STATE_COORDS[state]?.city || 'Unknown'\<close>.
\<close>

definition recordState :: "raw_record \<Rightarrow> string" where
  "recordState r = orDefault (r ''State'') ''CA''"

definition recordCity :: "raw_record \<Rightarrow> string" where
  "recordCity r = orDefault (orElse (r ''City'') (stateCity (recordState r))) ''Unknown''"

text \<open>
  \<^verbatim>\<open>processADSRecord\<close> and \<^verbatim>\<open>processADASRecord\<close> have the same body but for three
  texts: the prefix of the report number made from the index, the label in the
  description and the prefix of \<^verbatim>\<open>external_id\<close>. Neither ever returns null.
\<close>

definition processRecord ::
  "string \<Rightarrow> string \<Rightarrow> string \<Rightarrow> env \<Rightarrow> geocache \<Rightarrow> geocache \<Rightarrow> raw_record \<Rightarrow> nat \<Rightarrow> outcome" where
  "processRecord indexTag label idPrefix e geocodeCache streetGeocodeCache r index =
     (let reportNumber = orDefault (r ''Report Number'') (indexTag @ showNat index);
          manufacturer = orDefault (orElse (r ''Make'') (r ''Manufacturer'')) [];
          state = recordState r;
          cityName = recordCity r;
          realCoords = parseNHTSACoordinates r;
          narrative = orDefault (r ''Narrative'') [];
          extractedAddress =
            (if realCoords = None then extractLocationFromNarrative (matchPattern e) narrative else None);
          street =
            (if realCoords = None \<and> truthy extractedAddress
             then geocodeStreetAddress e geocodeCache streetGeocodeCache (the extractedAddress) cityName state
             else (None, None, []));
          streetCoords = fst street;
          coords =
            (case realCoords of
               Some c \<Rightarrow> c
             | None \<Rightarrow>
                 (case streetCoords of
                    Some g \<Rightarrow> \<lparr> lat = Num (g_lat g), lng = Num (g_lng g) \<rparr>
                  | None \<Rightarrow> getCoordinates geocodeCache (random_lat e) (random_lng e) cityName state));
          incidentDate = orElse (r ''Incident Date'') (r ''Date of Incident'');
          incidentTime = r ''Incident Time (24:00)'';
          parsedDate = parseNHTSADate (host e) incidentDate incidentTime;
          occurredAt = (case parsedDate of Some d \<Rightarrow> d | None \<Rightarrow> now_occurred e);
          model = orDefault (r ''Model'') [];
          year = orDefault (r ''Model Year'') [];
          descr = trim (''NHTSA SGO Report: '' @ manufacturer @ '' '' @ model @ '' '' @ year @ '' ''
                        @ label @ '' incident in '' @ cityName @ '', '' @ state @ ''. ''
                        @ (if r ''Crash'' = Some ''Yes'' then ''Crash reported.'' else [])
                        @ '' '' @ orDefault (r ''Highest Injury Severity Reported'') []);
          addr = orElse (orElse extractedAddress (r ''Address'')) (r ''Street'')
      in
      \<lparr> processed =
          \<lparr> incident =
              \<lparr> incident_type = mapIncidentType r,
                av_company = mapCompany manufacturer,
                description = descr,
                location = coords,
                address = (if truthy addr then addr else None),
                city = cityName,
                occurred_at = occurredAt,
                reported_at = now_reported e,
                status = ''verified'',
                source = ''nhtsa'',
                external_id = idPrefix @ reportNumber,
                fatalities = countField r ''Deaths'' ''Fatalities'',
                injuries = countField r ''Injuries'' ''Persons Injured'',
                raw_data = r \<rparr>,
            hasRealCoords = (realCoords \<noteq> None),
            hasStreetCoords = (streetCoords \<noteq> None) \<rparr>,
        cacheWrite = fst (snd street),
        calls = (if realCoords = None then NarrativeExtraction narrative # snd (snd street) else []) \<rparr>)"

definition processADSRecord :: "env \<Rightarrow> geocache \<Rightarrow> geocache \<Rightarrow> raw_record \<Rightarrow> nat \<Rightarrow> outcome" where
  "processADSRecord = processRecord ''ADS-'' ''ADS'' ''nhtsa-ads-''"

definition processADASRecord :: "env \<Rightarrow> geocache \<Rightarrow> geocache \<Rightarrow> raw_record \<Rightarrow> nat \<Rightarrow> outcome" where
  "processADASRecord = processRecord ''ADAS-'' ''ADAS (Level 2)'' ''nhtsa-adas-''"

section \<open>Seeding\<close>

definition applyWrite :: "geocache \<Rightarrow> cache_write \<Rightarrow> geocache" where
  "applyWrite cache w = (case w of None \<Rightarrow> cache | Some (k, v) \<Rightarrow> cache(k \<mapsto> v))"

text \<open>
  \<^verbatim>\<open>preGeocodeAllCities\<close>: the distinct \<^verbatim>\<open>`${city}|${state}`\<close> texts in the order of
  their first occurrence (a \<^verbatim>\<open>Set\<close>), geocoded in batches of 50. The lookups of a batch
  run concurrently: each reads the cache as it is when the batch starts, and their writes
  follow (in the order the answers arrive; the model takes the order of the batch). The
  counts of geocoded and failed lookups are only logged.
\<close>

definition uniqueLocations :: "raw_record list \<Rightarrow> string list" where
  "uniqueLocations records =
     rev (remdups (rev (concat (map (\<lambda>r.
       let c = map_option trim (r ''City''); s = map_option trim (r ''State'')
       in if truthy c \<and> truthy s then [the c @ ''|'' @ the s] else []) records))))"

definition preGeocodeOne :: "(string \<Rightarrow> fetch_result) \<Rightarrow> geocache \<Rightarrow> string \<Rightarrow> cache_write" where
  "preGeocodeOne cityService geocodeCache loc =
     (let parts = split_on (CHR ''|'') loc
      in snd (geocodeLocation cityService (parts ! 0) (parts ! 1) geocodeCache))"

function preGeocodeLoop :: "(string \<Rightarrow> fetch_result) \<Rightarrow> string list \<Rightarrow> nat \<Rightarrow> geocache \<Rightarrow> geocache" where
  "preGeocodeLoop cityService locations i geocodeCache =
     (if i < length locations then
        (let batch = take 50 (drop i locations)
         in preGeocodeLoop cityService locations (i + 50)
              (foldl applyWrite geocodeCache (map (preGeocodeOne cityService geocodeCache) batch)))
      else geocodeCache)"
  by pat_completeness auto
termination
  by (relation "measure (\<lambda>(cityService, locations, i, geocodeCache). length locations - i)") auto

declare preGeocodeLoop.simps [simp del]

definition preGeocodeAllCities :: "(string \<Rightarrow> fetch_result) \<Rightarrow> raw_record list \<Rightarrow> geocache \<Rightarrow> geocache" where
  "preGeocodeAllCities cityService records geocodeCache =
     preGeocodeLoop cityService (uniqueLocations records) 0 geocodeCache"

text \<open>
  The processing loop of \<^verbatim>\<open>seedNHTSAData\<close>: batches of 20 records under
  \<^verbatim>\<open>Promise.all\<close>, record \<^verbatim>\<open>idx\<close> of the batch at \<^verbatim>\<open>i\<close> processed with index
  \<^verbatim>\<open>i + idx\<close>. Every record of a batch reads the street cache as it is when the batch
  starts; the writes follow. \<^verbatim>\<open>envs k\<close> is what the record of index \<^verbatim>\<open>k\<close> meets.
\<close>

definition processBatch ::
  "(env \<Rightarrow> geocache \<Rightarrow> geocache \<Rightarrow> raw_record \<Rightarrow> nat \<Rightarrow> outcome) \<Rightarrow> (nat \<Rightarrow> env) \<Rightarrow> geocache \<Rightarrow> geocache
     \<Rightarrow> raw_record list \<Rightarrow> nat \<Rightarrow> outcome list" where
  "processBatch f envs geocodeCache streetGeocodeCache batch i =
     map (\<lambda>(idx, r). f (envs (i + idx)) geocodeCache streetGeocodeCache r (i + idx))
         (zip [0..<length batch] batch)"

function processLoop ::
  "(env \<Rightarrow> geocache \<Rightarrow> geocache \<Rightarrow> raw_record \<Rightarrow> nat \<Rightarrow> outcome) \<Rightarrow> (nat \<Rightarrow> env) \<Rightarrow> geocache
     \<Rightarrow> raw_record list \<Rightarrow> nat \<Rightarrow> ProcessedIncident list \<times> geocache \<Rightarrow> ProcessedIncident list \<times> geocache" where
  "processLoop f envs geocodeCache records i (acc, streetGeocodeCache) =
     (if i < length records then
        (let batch = take 20 (drop i records);
             results = processBatch f envs geocodeCache streetGeocodeCache batch i
         in processLoop f envs geocodeCache records (i + 20)
              (acc @ map processed results,
               foldl applyWrite streetGeocodeCache (map cacheWrite results)))
      else (acc, streetGeocodeCache))"
  by pat_completeness auto
termination
  by (relation "measure (\<lambda>(f, envs, geocodeCache, records, i, st). length records - i)") auto

declare processLoop.simps [simp del]

text \<open>
  Modelled from the spec: the persistent store and its upsert, which are a database
  service outside \<^verbatim>\<open>src/\<close> (\<^verbatim>\<open>supabase.from('incidents').upsert(batch, { onConflict:
  'external_id', ignoreDuplicates: false })\<close>). Section 4.6: a record with an existing
  \<^verbatim>\<open>external_id\<close> is updated in place, a record with a new one is inserted. Rows that
  were not ingested (community reports) have no \<^verbatim>\<open>external_id\<close>. A batch the store
  answers with an error writes nothing.
\<close>

datatype stored = Ingested IncidentInsert | Community nat

definition rowKey :: "stored \<Rightarrow> string option" where
  "rowKey row = (case row of Ingested inc \<Rightarrow> Some (external_id inc) | Community n \<Rightarrow> None)"

definition upsertRow :: "stored list \<Rightarrow> IncidentInsert \<Rightarrow> stored list" where
  "upsertRow st inc =
     (if Some (external_id inc) \<in> set (map rowKey st)
      then map (\<lambda>row. if rowKey row = Some (external_id inc) then Ingested inc else row) st
      else st @ [Ingested inc])"

definition upsertBatch :: "stored list \<Rightarrow> IncidentInsert list \<Rightarrow> stored list" where
  "upsertBatch st batch = foldl upsertRow st batch"

text \<open>
  What the store answers to the upsert of the batch that starts at \<^verbatim>\<open>i\<close>: an error, or
  \<^verbatim>\<open>data\<close> with its number of rows (\<^verbatim>\<open>data?.length || 0\<close>).
\<close>

datatype upsert_result = UpsertError | Returned nat

record counters =
  totalInserted :: int
  totalSkipped :: int
  totalErrors :: int

text \<open>The insertion loop of \<^verbatim>\<open>seedNHTSAData\<close>: batches of 50, one after the other.\<close>

function upsertLoop ::
  "(nat \<Rightarrow> upsert_result) \<Rightarrow> IncidentInsert list \<Rightarrow> nat \<Rightarrow> stored list \<times> counters \<Rightarrow> stored list \<times> counters" where
  "upsertLoop answer incidents i (st, c) =
     (if i < length incidents then
        (let batch = take 50 (drop i incidents) in
         case answer i of
           UpsertError \<Rightarrow>
             upsertLoop answer incidents (i + 50)
               (st, c\<lparr> totalErrors := totalErrors c + int (length batch) \<rparr>)
         | Returned n \<Rightarrow>
             upsertLoop answer incidents (i + 50)
               (upsertBatch st batch,
                c\<lparr> totalInserted := totalInserted c + int n,
                   totalSkipped := totalSkipped c + (int (length batch) - int n) \<rparr>))
      else (st, c))"
  by pat_completeness auto
termination
  by (relation "measure (\<lambda>(answer, incidents, i, st). length incidents - i)") auto

declare upsertLoop.simps [simp del]

text \<open>
  What one run of \<^verbatim>\<open>seedNHTSAData\<close> meets: the two CSV texts (\<^const>\<open>None\<close> when the
  fetch fails or its status is not ok, which throws), the geocoding service, and the
  store's answers.
\<close>

record world =
  adsCsv :: "string option"
  adasCsv :: "string option"
  cityService :: "string \<Rightarrow> fetch_result"
  adsEnv :: "nat \<Rightarrow> env"
  adasEnv :: "nat \<Rightarrow> env"
  adsUpsert :: "nat \<Rightarrow> upsert_result"
  adasUpsert :: "nat \<Rightarrow> upsert_result"

record seed_result =
  store :: "stored list"
  written :: counters
  realCoordsCount :: int
  streetCoordsCount :: int
  fallbackCoordsCount :: int

definition countWhere :: "(ProcessedIncident \<Rightarrow> bool) \<Rightarrow> ProcessedIncident list \<Rightarrow> int" where
  "countWhere p ps = int (length (filter p ps))"

text \<open>
  The body of \<^verbatim>\<open>seedNHTSAData\<close> once both CSV files are parsed. Both caches are empty
  when the process starts. The update of the \<^verbatim>\<open>data_sources\<close> table is left out.
\<close>

definition seedRecords :: "world \<Rightarrow> raw_record list \<Rightarrow> raw_record list \<Rightarrow> stored list \<Rightarrow> seed_result" where
  "seedRecords w adsRecords adasRecords st =
     (let geocodeCache = preGeocodeAllCities (cityService w) (adsRecords @ take 500 adasRecords) Map.empty;
          ads = processLoop processADSRecord (adsEnv w) geocodeCache adsRecords 0 ([], Map.empty);
          adsProcessed = fst ads;
          adsRealCoords = countWhere hasRealCoords adsProcessed;
          adsStreetCoords = countWhere hasStreetCoords adsProcessed;
          adsFallbackCoords = int (length adsProcessed) - adsRealCoords - adsStreetCoords;
          up1 = upsertLoop (adsUpsert w) (map incident adsProcessed) 0
                  (st, \<lparr> totalInserted = 0, totalSkipped = 0, totalErrors = 0 \<rparr>);
          adasToProcess = take 500 adasRecords;
          adas = processLoop processADASRecord (adasEnv w) geocodeCache adasToProcess 0 ([], snd ads);
          adasProcessed = fst adas;
          adasRealCoords = countWhere hasRealCoords adasProcessed;
          adasStreetCoords = countWhere hasStreetCoords adasProcessed;
          adasFallbackCoords = int (length adasProcessed) - adasRealCoords - adasStreetCoords;
          up2 = upsertLoop (adasUpsert w) (map incident adasProcessed) 0 up1
      in \<lparr> store = fst up2,
           written = snd up2,
           realCoordsCount = adsRealCoords + adasRealCoords,
           streetCoordsCount = adsStreetCoords + adasStreetCoords,
           fallbackCoordsCount = adsFallbackCoords + adasFallbackCoords \<rparr>)"

text \<open>
  \<^verbatim>\<open>seedNHTSAData\<close>: both files are fetched before anything is processed, and a fetch
  that throws is caught at the end of the function.
\<close>

definition seedNHTSAData :: "world \<Rightarrow> stored list \<Rightarrow> seed_result" where
  "seedNHTSAData w st =
     (case adsCsv w of
        None \<Rightarrow> \<lparr> store = st, written = \<lparr> totalInserted = 0, totalSkipped = 0, totalErrors = 0 \<rparr>,
                 realCoordsCount = 0, streetCoordsCount = 0, fallbackCoordsCount = 0 \<rparr>
      | Some adsText \<Rightarrow>
          (case adasCsv w of
             None \<Rightarrow> \<lparr> store = st, written = \<lparr> totalInserted = 0, totalSkipped = 0, totalErrors = 0 \<rparr>,
                      realCoordsCount = 0, streetCoordsCount = 0, fallbackCoordsCount = 0 \<rparr>
           | Some adasText \<Rightarrow> seedRecords w (parseCSV adsText) (parseCSV adasText) st))"

text \<open>
  Three variables of \<^verbatim>\<open>seedNHTSAData\<close> on their own: \<^verbatim>\<open>geocodeCache\<close> once the
  cities are geocoded, and what the two processing loops leave, \<^verbatim>\<open>adsProcessed\<close> and
  \<^verbatim>\<open>adasProcessed\<close>, each with the street cache after the loop.
\<close>

definition cityCache :: "world \<Rightarrow> raw_record list \<Rightarrow> raw_record list \<Rightarrow> geocache" where
  "cityCache w adsRecords adasRecords =
     preGeocodeAllCities (cityService w) (adsRecords @ take 500 adasRecords) Map.empty"

definition adsProcessed ::
  "world \<Rightarrow> raw_record list \<Rightarrow> raw_record list \<Rightarrow> ProcessedIncident list \<times> geocache" where
  "adsProcessed w adsRecords adasRecords =
     processLoop processADSRecord (adsEnv w) (cityCache w adsRecords adasRecords) adsRecords 0 ([], Map.empty)"

definition adasProcessed ::
  "world \<Rightarrow> raw_record list \<Rightarrow> raw_record list \<Rightarrow> ProcessedIncident list \<times> geocache" where
  "adasProcessed w adsRecords adasRecords =
     processLoop processADASRecord (adasEnv w) (cityCache w adsRecords adasRecords) (take 500 adasRecords) 0
       ([], snd (adsProcessed w adsRecords adasRecords))"

text \<open>The invariant of the store: no two rows share an \<^verbatim>\<open>external_id\<close>.\<close>

definition storeKeys :: "stored list \<Rightarrow> string list" where
  "storeKeys st = concat (map (\<lambda>row. case rowKey row of None \<Rightarrow> [] | Some k \<Rightarrow> [k]) st)"

definition uniqueKeys :: "stored list \<Rightarrow> bool" where
  "uniqueKeys st = distinct (storeKeys st)"

definition unkeyed :: "stored list \<Rightarrow> stored list" where
  "unkeyed st = filter (\<lambda>row. rowKey row = None) st"

text \<open>
  The keys the insertion loop writes from position \<^verbatim>\<open>i\<close> on: those of the batches the
  store does not answer with an error.
\<close>

function writtenKeys :: "(nat \<Rightarrow> upsert_result) \<Rightarrow> string list \<Rightarrow> nat \<Rightarrow> string set" where
  "writtenKeys answer ids i =
     (if i < length ids then
        (case answer i of
           UpsertError \<Rightarrow> writtenKeys answer ids (i + 50)
         | Returned n \<Rightarrow> set (take 50 (drop i ids)) \<union> writtenKeys answer ids (i + 50))
      else {})"
  by pat_completeness auto
termination
  by (relation "measure (\<lambda>(answer, ids, i). length ids - i)") auto

declare writtenKeys.simps [simp del]

text \<open>
  The \<^verbatim>\<open>external_id\<close> of the record at index \<^verbatim>\<open>k\<close>: the prefix of the source, then the
  report number or, when that is missing or empty, the tag and the index.
\<close>

definition externalIdOf :: "string \<Rightarrow> string \<Rightarrow> raw_record \<Rightarrow> nat \<Rightarrow> string" where
  "externalIdOf idPrefix indexTag r k = idPrefix @ orDefault (r ''Report Number'') (indexTag @ showNat k)"

definition recordIds :: "string \<Rightarrow> string \<Rightarrow> raw_record list \<Rightarrow> string list" where
  "recordIds idPrefix indexTag records =
     map (\<lambda>k. externalIdOf idPrefix indexTag (records ! k) k) [0..<length records]"

definition noCounts :: counters where
  "noCounts = \<lparr> totalInserted = 0, totalSkipped = 0, totalErrors = 0 \<rparr>"

text \<open>A location whose latitude and longitude are numbers in range.\<close>

definition validPoint :: "point \<Rightarrow> bool" where
  "validPoint p =
     (case lat p of
        Num a \<Rightarrow>
          (case lng p of
             Num b \<Rightarrow> - 90 \<le> a \<and> a \<le> 90 \<and> - 180 \<le> b \<and> b \<le> 180
           | _ \<Rightarrow> False)
      | _ \<Rightarrow> False)"

section \<open>Sample inputs\<close>

text \<open>
  A geocoding service that places every street query at latitude 95, one that places it
  near Austin, and one that fails; narrative patterns of which the first finds
  \<^verbatim>\<open>on Market Street\<close>.
\<close>

definition sampleEnv :: "(string \<Rightarrow> fetch_result) \<Rightarrow> env" where
  "sampleEnv service =
     \<lparr> streetService = service,
       matchPattern = (\<lambda>k n. if k = 0 then Some ''on Market Street'' else None),
       random_lat = 1 / 4, random_lng = 3 / 4,
       host = utcHost, now_occurred = 1762128000000, now_reported = 1762128000001 \<rparr>"

definition farNorthService :: "string \<Rightarrow> fetch_result" where
  "farNorthService q = Json [\<lparr> center_lng = - 97, center_lat = 95, place_name = ''Market Street'' \<rparr>]"

definition austinStreetService :: "string \<Rightarrow> fetch_result" where
  "austinStreetService q = Json [\<lparr> center_lng = - 97, center_lat = 30.3, place_name = ''Market Street'' \<rparr>]"

definition failingService :: "string \<Rightarrow> fetch_result" where
  "failingService q = NotOk"




definition austinCache :: geocache where
  "austinCache = [''austin,tx'' \<mapsto> Some \<lparr> g_lat = 30.2672, g_lng = - 97.7431, displayName = ''Austin, Texas'' \<rparr>]"

definition narrativeRecord :: raw_record where
  "narrativeRecord =
     [''State'' \<mapsto> ''TX'', ''Make'' \<mapsto> ''Waymo LLC'',
      ''Narrative'' \<mapsto> ''collision on Market Street'', ''Incident Date'' \<mapsto> ''OCT-2025'']"

definition countsRecord :: raw_record where
  "countsRecord = narrativeRecord(''Deaths'' \<mapsto> ''2 (est.)'', ''Injuries'' \<mapsto> ''unknown'')"

definition negativeDeathsRecord :: raw_record where
  "negativeDeathsRecord = narrativeRecord(''Deaths'' \<mapsto> ''-3'')"

text \<open>A record whose \<^verbatim>\<open>Deaths\<close> field is a run of 400 nines.\<close>

definition hugeDeathsRecord :: raw_record where
  "hugeDeathsRecord = narrativeRecord(''Deaths'' \<mapsto> replicate 400 (CHR ''9''))"

definition inheritedStateRecord :: raw_record where
  "inheritedStateRecord = [''State'' \<mapsto> ''constructor'', ''Make'' \<mapsto> ''Waymo LLC'']"

definition unknownStateRecord :: raw_record where
  "unknownStateRecord = [''State'' \<mapsto> ''ZZ'', ''Make'' \<mapsto> ''Waymo LLC'']"

definition noStateRecord :: raw_record where
  "noStateRecord = [''Make'' \<mapsto> ''Waymo LLC'']"

text \<open>
  A run whose ADS file has three rows, two of them with the same report number and one
  with none, and whose ADAS file has one row; the store accepts every batch.
\<close>

definition sampleAdsCsv :: string where
  "sampleAdsCsv = ''Report Number,State'' @ [newline] @ ''R1,TX'' @ [newline] @ ''R1,CA'' @ [newline] @ '',TX''"

definition sampleAdasCsv :: string where
  "sampleAdasCsv = ''Report Number,State'' @ [newline] @ ''A7,AZ''"

definition sampleWorld :: world where
  "sampleWorld =
     \<lparr> adsCsv = Some sampleAdsCsv, adasCsv = Some sampleAdasCsv,
       cityService = failingService,
       adsEnv = (\<lambda>k. sampleEnv failingService), adasEnv = (\<lambda>k. sampleEnv failingService),
       adsUpsert = (\<lambda>i. Returned 3), adasUpsert = (\<lambda>i. Returned 1) \<rparr>"

definition invalidDateRecord :: raw_record where
  "invalidDateRecord = [''State'' \<mapsto> ''TX'', ''Incident Date'' \<mapsto> ''13/40/2025'']"

definition gpsRecord :: raw_record where
  "gpsRecord = narrativeRecord(''Latitude'' \<mapsto> '' 37.7749 '', ''Longitude'' \<mapsto> ''-122.4194'')"

section \<open>The CSV scanner is quote-aware\<close>

lemma set_trim_subset: "set (trim s) \<subseteq> set s"
proof -
  have "set (trim s) \<subseteq> set (rev (dropWhile isWhite s))"
    unfolding trim_def by (metis set_dropWhileD set_rev subsetI)
  also have "\<dots> \<subseteq> set s"
    by (metis set_dropWhileD set_rev subsetI)
  finally show ?thesis .
qed

lemma loop_inside_quotes:
  "dquote \<notin> set f \<Longrightarrow>
   parseCSVLine_loop (f @ rest) result current True = parseCSVLine_loop rest result (current @ f) True"
  by (induction f arbitrary: current) auto

lemma loop_quoted_field:
  "dquote \<notin> set f \<Longrightarrow>
   parseCSVLine_loop (csvQuoted f @ rest) result current False
     = parseCSVLine_loop rest result (current @ f) False"
  by (simp add: csvQuoted_def loop_inside_quotes)

lemma loop_quoted_row:
  "\<forall>f \<in> set (f0 # fs). dquote \<notin> set f \<Longrightarrow>
   parseCSVLine_loop (csvJoin (map csvQuoted (f0 # fs))) result [] False
     = result @ map trim (f0 # fs)"
proof (induction fs arbitrary: f0 result)
  case Nil
  then have "parseCSVLine_loop (csvQuoted f0 @ []) result [] False
               = parseCSVLine_loop [] result ([] @ f0) False"
    by (intro loop_quoted_field) simp
  then show ?case by simp
next
  case (Cons g gs)
  have f0: "dquote \<notin> set f0" and rest: "\<forall>f \<in> set (g # gs). dquote \<notin> set f"
    using Cons.prems by auto
  have "parseCSVLine_loop (csvJoin (map csvQuoted (f0 # g # gs))) result [] False
          = parseCSVLine_loop (csvQuoted f0 @ CHR '','' # csvJoin (map csvQuoted (g # gs))) result [] False"
    by simp
  also have "\<dots> = parseCSVLine_loop (CHR '','' # csvJoin (map csvQuoted (g # gs))) result ([] @ f0) False"
    using f0 by (rule loop_quoted_field)
  also have "\<dots> = parseCSVLine_loop (csvJoin (map csvQuoted (g # gs))) (result @ [trim f0]) [] False"
    by (simp add: dquote_def)
  also have "\<dots> = (result @ [trim f0]) @ map trim (g # gs)"
    using rest by (rule Cons.IH)
  finally show ?case by simp
qed

lemma trim_no_quote: "dquote \<notin> set current \<Longrightarrow> dquote \<notin> set (trim current)"
  using set_trim_subset [of current] by (rule contra_subsetD)

lemma loop_never_emits_quote:
  "f \<in> set (parseCSVLine_loop line result current inQuotes) \<Longrightarrow>
   \<forall>g \<in> set result. dquote \<notin> set g \<Longrightarrow> dquote \<notin> set current \<Longrightarrow>
   dquote \<notin> set f"
proof (induction line arbitrary: result current inQuotes)
  case Nil
  then have "f \<in> set result \<or> f = trim current" by auto
  then show ?case using Nil.prems(2,3) trim_no_quote by blast
next
  case (Cons c cs)
  show ?case
  proof (cases "c = dquote")
    case True
    then have "f \<in> set (parseCSVLine_loop cs result current (\<not> inQuotes))"
      using Cons.prems(1) by simp
    then show ?thesis using Cons.prems(2,3) by (rule Cons.IH)
  next
    case False
    note notq = this
    show ?thesis
    proof (cases "c = CHR '','' \<and> \<not> inQuotes")
      case True
      then have mem: "f \<in> set (parseCSVLine_loop cs (result @ [trim current]) [] inQuotes)"
        using Cons.prems(1) notq by simp
      have res: "\<forall>g \<in> set (result @ [trim current]). dquote \<notin> set g"
        using Cons.prems(2,3) trim_no_quote by simp
      have cur: "dquote \<notin> set []" by simp
      show ?thesis using mem res cur by (rule Cons.IH)
    next
      case False
      then have mem: "f \<in> set (parseCSVLine_loop cs result (current @ [c]) inQuotes)"
        using Cons.prems(1) notq by auto
      have cur: "dquote \<notin> set (current @ [c])"
        using Cons.prems(3) notq by simp
      show ?thesis using mem Cons.prems(2) cur by (rule Cons.IH)
    qed
  qed
qed

lemma unquotedFields_nonempty: "unquotedFields q line \<noteq> []"
  by (induction line arbitrary: q) auto

lemma map_trim_fields:
  "trim (hd (unquotedFields q line)) # map trim (tl (unquotedFields q line))
     = map trim (unquotedFields q line)"
  using unquotedFields_nonempty [of q line] by (cases "unquotedFields q line") simp_all

lemma loop_unquotedFields:
  "parseCSVLine_loop line result current q
     = result @ trim (current @ hd (unquotedFields q line)) # map trim (tl (unquotedFields q line))"
  by (induction line arbitrary: result current q) (simp_all add: map_trim_fields)

lemma parseCSVLine_unquotedFields: "parseCSVLine line = map trim (unquotedFields False line)"
  unfolding parseCSVLine_def loop_unquotedFields by (simp add: map_trim_fields)

lemma length_unquotedFields: "length (unquotedFields q line) = Suc (separators q line)"
proof (induction line arbitrary: q)
  case Nil
  show ?case by simp
next
  case (Cons c cs)
  have "length (tl (unquotedFields q cs)) = separators q cs"
    using Cons.IH [of q] by simp
  thus ?case using Cons.IH by simp
qed

lemma parseCSVLine_length: "length (parseCSVLine line) = Suc (separators False line)"
  by (simp add: parseCSVLine_unquotedFields length_unquotedFields)

lemma parseCSVLine_no_quote: "f \<in> set (parseCSVLine line) \<Longrightarrow> dquote \<notin> set f"
proof -
  assume "f \<in> set (parseCSVLine line)"
  then have "f \<in> set (parseCSVLine_loop line [] [] False)"
    by (simp add: parseCSVLine_def)
  then show "dquote \<notin> set f"
    by (rule loop_never_emits_quote) simp_all
qed

lemma parseCSVLine_quoted_row:
  "fs \<noteq> [] \<Longrightarrow> \<forall>f \<in> set fs. dquote \<notin> set f \<Longrightarrow>
   parseCSVLine (csvJoin (map csvQuoted fs)) = map trim fs"
proof -
  assume ne: "fs \<noteq> []" and nq: "\<forall>f \<in> set fs. dquote \<notin> set f"
  obtain f0 gs where fs: "fs = f0 # gs" using ne by (cases fs) auto
  show ?thesis
    using nq loop_quoted_row [of f0 gs "[]"] unfolding fs parseCSVLine_def by simp
qed

lemma parseCSVLine_smithRow:
  "parseCSVLine smithRow = [''Smith, John'', ''collision'']"
  "separators False smithRow = 1"
  by (simp_all add: smithRow_def csvQuoted_def parseCSVLine_def dquote_def trim_def isWhite_def)

lemma makeRecord_loop_other:
  "h \<notin> set hs \<Longrightarrow> makeRecord_loop hs idx vals r h = r h"
  by (induction hs arbitrary: idx r) auto

lemma makeRecord_loop_proto:
  "makeRecord_loop hs idx vals r ''__proto__'' = r ''__proto__''"
  by (induction hs arbitrary: idx r) auto

lemma makeRecord_loop_past_end:
  "length vals \<le> idx \<Longrightarrow> h \<in> set hs \<Longrightarrow> h \<noteq> ''__proto__'' \<Longrightarrow>
   makeRecord_loop hs idx vals r h = Some []"
proof (induction hs arbitrary: idx r)
  case Nil
  then show ?case by simp
next
  case (Cons x xs)
  show ?case
  proof (cases "h \<in> set xs")
    case True
    have "makeRecord_loop xs (Suc idx) vals r' h = Some []" for r'
      using Cons.IH [of "Suc idx" r'] True Cons.prems by simp
    then show ?thesis by simp
  next
    case False
    then have "h = x" using Cons.prems by simp
    then show ?thesis
      using False Cons.prems by (simp add: makeRecord_loop_other fieldAt_def)
  qed
qed

lemma makeRecord_loop_missing:
  "h \<in> set (drop (length vals - idx) hs) \<Longrightarrow> h \<noteq> ''__proto__'' \<Longrightarrow>
   makeRecord_loop hs idx vals r h = Some []"
proof (induction hs arbitrary: idx r)
  case Nil
  then show ?case by simp
next
  case (Cons x xs)
  show ?case
  proof (cases "length vals \<le> idx")
    case True
    then show ?thesis using Cons.prems makeRecord_loop_past_end [of vals idx h "x # xs"] by simp
  next
    case False
    then have "length vals - idx = Suc (length vals - Suc idx)" by simp
    then have "h \<in> set (drop (length vals - Suc idx) xs)" using Cons.prems by simp
    then have "makeRecord_loop xs (Suc idx) vals r' h = Some []" for r'
      using Cons.IH [of "Suc idx" r'] Cons.prems(2) by simp
    then show ?thesis by simp
  qed
qed

text \<open>
  The scanner against section 4.1, for every line: the fields are those that the quote
  state delimits, trimmed; there is one more field than there are commas outside quotes;
  no field holds a quote character. A row written as quoted fields joined by commas
  parses back to those fields (trimmed), whatever commas they hold.
\<close>

lemma parseCSVLine_quote_aware:
  "parseCSVLine line = map trim (unquotedFields False line)"
  "length (parseCSVLine line) = Suc (separators False line)"
  "f \<in> set (parseCSVLine line) \<Longrightarrow> dquote \<notin> set f"
  by (rule parseCSVLine_unquotedFields, rule parseCSVLine_length, rule parseCSVLine_no_quote)

text \<open>
  A header placed after the last value of a short row is mapped to the empty string,
  unless it is the name \<^verbatim>\<open>__proto__\<close>, which the record never holds.
\<close>

lemma makeRecord_missing_columns:
  "h \<in> set (drop (length vals) headers) \<Longrightarrow> h \<noteq> ''__proto__'' \<Longrightarrow> makeRecord headers vals h = Some []"
  unfolding makeRecord_def using makeRecord_loop_missing [of h vals 0 headers] by simp

lemma makeRecord_proto: "makeRecord headers vals ''__proto__'' = None"
  unfolding makeRecord_def by (simp add: makeRecord_loop_proto)

text \<open>
  Claim C8. The claim gives every missing column of a short row the empty string. The
  file \<^verbatim>\<open>Report Number,__proto__\<close> with the row \<^verbatim>\<open>R1\<close> has two headers and a row of
  one field; the record of that row holds the report number and no column
  \<^verbatim>\<open>__proto__\<close>: the empty string that the claim states for the missing column is not
  there.
\<close>

theorem proto_column_is_dropped:
  "map (trim \<circ> stripQuotes) (parseCSVLine (hd (split_on newline protoCsv))) = [''Report Number'', ''__proto__'']
   \<and> parseCSVLine ''R1'' = [''R1'']
   \<and> parseCSV protoCsv = [[''Report Number'' \<mapsto> ''R1'']]
   \<and> map (\<lambda>r. r ''__proto__'') (parseCSV protoCsv) = [None]"
  by (simp add: protoCsv_def parseCSV_def newline_def parseCSVLine_def dquote_def trim_def isWhite_def
        stripQuotes_def makeRecord_def fieldAt_def)

section \<open>The date parser\<close>

lemma isDigit_not_white: "isDigit c \<Longrightarrow> \<not> isWhite c"
  by (auto simp: isDigit_def isWhite_def charCode_def)

lemma isDigit_upperChar: "isDigit c \<Longrightarrow> upperChar c = c"
proof -
  assume d: "isDigit c"
  have "c \<notin> set lowerLetters"
    using d by (auto simp: lowerLetters_def isDigit_def charCode_def)
  then have "map_of (zip lowerLetters upperLetters) c = None"
    by (simp add: map_of_eq_None_iff lowerLetters_def upperLetters_def)
  then show ?thesis by (simp add: upperChar_def)
qed

lemma trim_digits_end:
  "\<not> isWhite x \<Longrightarrow> isDigit d \<Longrightarrow> trim (x # xs @ [d]) = x # xs @ [d]"
  by (simp add: trim_def isDigit_not_white)

lemma MONTH_MAP_cases:
  "MONTH_MAP mon = Some m \<Longrightarrow>
   (mon, m) \<in> set [(''JAN'', 0), (''FEB'', 1), (''MAR'', 2), (''APR'', 3), (''MAY'', 4), (''JUN'', 5),
      (''JUL'', 6), (''AUG'', 7), (''SEP'', 8), (''OCT'', 9), (''NOV'', 10), (''DEC'', 11)]"
  unfolding MONTH_MAP_def by (rule map_of_SomeD)

lemma upper_month_names:
  "MONTH_MAP mon = Some m \<Longrightarrow> length mon = 3 \<and> list_all isUpper mon \<and> map upperChar mon = mon \<and> \<not> isWhite (hd mon)"
  by (drule MONTH_MAP_cases) (auto simp: isUpper_def charCode_def upperChar_def lowerLetters_def upperLetters_def isWhite_def)

lemma monthYear_normal:
  assumes mm: "MONTH_MAP mon = Some m" and dg: "list_all isDigit [a, b, c, d]"
  shows "toUpperCase (trim (mon @ ''-'' @ [a, b, c, d])) = mon @ ''-'' @ [a, b, c, d]"
    and "monthYearMatch (mon @ ''-'' @ [a, b, c, d]) = Some (mon, [a, b, c, d])"
proof -
  from upper_month_names [OF mm] obtain x y z where mon: "mon = [x, y, z]"
    and up: "list_all isUpper mon" and id: "map upperChar mon = mon" and nw: "\<not> isWhite x"
    by (cases mon; cases "tl mon"; cases "tl (tl mon)") auto
  have "trim (x # ([y, z] @ ''-'' @ [a, b, c]) @ [d]) = x # ([y, z] @ ''-'' @ [a, b, c]) @ [d]"
    using nw dg by (intro trim_digits_end) simp_all
  then have t: "trim (mon @ ''-'' @ [a, b, c, d]) = mon @ ''-'' @ [a, b, c, d]"
    by (simp add: mon)
  have ux: "upperChar x = x" "upperChar y = y" "upperChar z = z"
    using id by (simp_all add: mon)
  have dash: "upperChar (CHR ''-'') = CHR ''-''"
    by (simp add: upperChar_def lowerLetters_def upperLetters_def)
  have sharp: "x \<noteq> CHR 0xDF" "y \<noteq> CHR 0xDF" "z \<noteq> CHR 0xDF"
    using up by (auto simp: mon isUpper_def charCode_def)
  have dsharp: "a \<noteq> CHR 0xDF" "b \<noteq> CHR 0xDF" "c \<noteq> CHR 0xDF" "d \<noteq> CHR 0xDF"
    using dg by (auto simp: isDigit_def charCode_def)
  show "toUpperCase (trim (mon @ ''-'' @ [a, b, c, d])) = mon @ ''-'' @ [a, b, c, d]"
    unfolding t using ux dash dg sharp dsharp
    by (simp add: toUpperCase_def upperUnits_def mon isDigit_upperChar)
  show "monthYearMatch (mon @ ''-'' @ [a, b, c, d]) = Some (mon, [a, b, c, d])"
    using up dg by (simp add: monthYearMatch_def mon)
qed

lemma Day_MakeDate: "0 \<le> t \<Longrightarrow> t < msPerDay \<Longrightarrow> Day (MakeDate d t) = d"
  by (simp add: Day_def MakeDate_def msPerDay_def)

lemma newDate_full_year:
  "100 \<le> year \<Longrightarrow> newDate e year month day = toUTC e (MakeDate (MakeDay year month day) 0)"
  by (simp add: newDate_def MakeTime_def)

lemma timeMatch_hhmm:
  "list_all isDigit [h1, h2, m1, m2] \<Longrightarrow> timeMatch [h1, h2, CHR '':'', m1, m2] = Some ([h1, h2], [m1, m2])"
  by simp

lemma setHours_midnight:
  "toLocal e (toUTC e (MakeDate dy 0)) = MakeDate dy 0 \<Longrightarrow>
   setHours e (toUTC e (MakeDate dy 0)) h mi = toUTC e (MakeDate dy (MakeTime h mi 0 0))"
  by (simp add: setHours_def Day_MakeDate msPerDay_def)
     (simp add: MakeDate_def SecFromTime_def msFromTime_def msPerDay_def msPerSecond_def)

lemma parseNHTSADate_evals:
  "parseNHTSADate e (Some ''13/40/2025'') None = Some (toUTC e (MakeDate (MakeDay 2026 1 9) 0))"
  "parseNHTSADate e (Some ''JAN-0050'') None = Some (toUTC e (MakeDate (MakeDay 1950 0 1) 0))"
  by (simp_all add: parseNHTSADate_def truthy_def trim_def isWhite_def toUpperCase_def upperUnits_def upperChar_def
        lowerLetters_def upperLetters_def parseMonthYear_def monthYearMatch_def isUpper_def
        charCode_def parseMDY_def mdyMatch_def isDigit_def parseDigits_def digitVal_def MONTH_MAP_def
        applyTime_def newDate_def MakeDay_def MakeTime_def DayFromYear_def InLeapYear_def monthStart_def)

lemma MakeDay_evals:
  "MakeDay 2026 1 9 = 20493" "MakeDay 2025 9 1 = 20362" "MakeDay 1950 0 1 = - 7305"
  "MakeDay 50 0 1 = - 701265"
  by (simp_all add: MakeDay_def DayFromYear_def InLeapYear_def monthStart_def)

text \<open>
  Claim C6, as the code has it. \<^verbatim>\<open>OCT-2025\<close> with no time token is the first instant of
  October 2025, local time. For every month abbreviation of \<^verbatim>\<open>MONTH_MAP\<close> and every
  four-digit year from 0100 on, \<^verbatim>\<open>MON-YYYY\<close> is the first day of that month of that
  year, at 00:00; with a time token \<^verbatim>\<open>HH:MM\<close> the hours and minutes are set on that
  day (where local midnight of that day exists in the host's zone).
\<close>

theorem parseNHTSADate_month_year:
  "parseNHTSADate e (Some ''OCT-2025'') None = Some (toUTC e (MakeDate (MakeDay 2025 9 1) 0))
   \<and> MakeDate (MakeDay 2025 9 1) 0 = 1759276800000
   \<and> (MONTH_MAP mon = Some m \<and> list_all isDigit [a, b, c, d] \<and> 100 \<le> parseDigits [a, b, c, d]
        \<longrightarrow>
        parseNHTSADate e (Some (mon @ ''-'' @ [a, b, c, d])) None
          = Some (toUTC e (MakeDate (MakeDay (parseDigits [a, b, c, d]) m 1) 0))
        \<and> (list_all isDigit [h1, h2, m1, m2]
             \<and> toLocal e (toUTC e (MakeDate (MakeDay (parseDigits [a, b, c, d]) m 1) 0))
                 = MakeDate (MakeDay (parseDigits [a, b, c, d]) m 1) 0
             \<longrightarrow>
             parseNHTSADate e (Some (mon @ ''-'' @ [a, b, c, d])) (Some [h1, h2, CHR '':'', m1, m2])
               = Some (toUTC e (MakeDate (MakeDay (parseDigits [a, b, c, d]) m 1)
                                  (MakeTime (parseDigits [h1, h2]) (parseDigits [m1, m2]) 0 0)))))"
proof (intro conjI impI)
  assume h: "MONTH_MAP mon = Some m \<and> list_all isDigit [a, b, c, d] \<and> 100 \<le> parseDigits [a, b, c, d]"
  then have mm: "MONTH_MAP mon = Some m" and dg: "list_all isDigit [a, b, c, d]"
    and yr: "100 \<le> parseDigits [a, b, c, d]" by simp_all
  note norm = monthYear_normal [OF mm dg, unfolded append.simps]
  have ne: "mon @ ''-'' @ [a, b, c, d] \<noteq> []" by simp
  have pm: "parseMonthYear e (mon @ ''-'' @ [a, b, c, d]) ts
              = Some (applyTime e (toUTC e (MakeDate (MakeDay (parseDigits [a, b, c, d]) m 1) 0)) ts)" for ts
    using yr by (simp add: parseMonthYear_def norm(2) mm newDate_full_year Let_def)
  have pd: "parseNHTSADate e (Some (mon @ ''-'' @ [a, b, c, d])) ts
              = Some (applyTime e (toUTC e (MakeDate (MakeDay (parseDigits [a, b, c, d]) m 1) 0)) ts)" for ts
    unfolding parseNHTSADate_def using ne
    by (simp add: truthy_def norm(1) pm [unfolded append.simps] Let_def)
  show "parseNHTSADate e (Some (mon @ ''-'' @ [a, b, c, d])) None
          = Some (toUTC e (MakeDate (MakeDay (parseDigits [a, b, c, d]) m 1) 0))"
    using pd [of None] by (simp add: applyTime_def truthy_def)
  assume t: "list_all isDigit [h1, h2, m1, m2]
             \<and> toLocal e (toUTC e (MakeDate (MakeDay (parseDigits [a, b, c, d]) m 1) 0))
                 = MakeDate (MakeDay (parseDigits [a, b, c, d]) m 1) 0"
  then have tm: "timeMatch [h1, h2, CHR '':'', m1, m2] = Some ([h1, h2], [m1, m2])"
    by (intro timeMatch_hhmm) simp
  show "parseNHTSADate e (Some (mon @ ''-'' @ [a, b, c, d])) (Some [h1, h2, CHR '':'', m1, m2])
          = Some (toUTC e (MakeDate (MakeDay (parseDigits [a, b, c, d]) m 1)
                             (MakeTime (parseDigits [h1, h2]) (parseDigits [m1, m2]) 0 0)))"
    using t pd [of "Some [h1, h2, CHR '':'', m1, m2]"]
    by (simp add: applyTime_def truthy_def tm setHours_midnight del: timeMatch.simps)
next
  show "parseNHTSADate e (Some ''OCT-2025'') None = Some (toUTC e (MakeDate (MakeDay 2025 9 1) 0))"
    by (simp add: parseNHTSADate_def truthy_def trim_def isWhite_def toUpperCase_def upperUnits_def upperChar_def
        lowerLetters_def upperLetters_def parseMonthYear_def monthYearMatch_def isUpper_def
        charCode_def isDigit_def parseDigits_def digitVal_def MONTH_MAP_def
        applyTime_def newDate_def MakeTime_def)
  show "MakeDate (MakeDay 2025 9 1) 0 = 1759276800000"
    by (simp add: MakeDay_evals MakeDate_def msPerDay_def)
qed

theorem parseNHTSADate_month_year_witness:
  "parseNHTSADate utcHost (Some ''OCT-2025'') None = Some 1759276800000
   \<and> parseNHTSADate utcHost (Some ''OCT-2025'') (Some ''14:35'') = Some 1759329300000"
proof -
  have hyp: "MONTH_MAP ''OCT'' = Some 9 \<and> list_all isDigit ''2025'' \<and> 100 \<le> parseDigits ''2025''"
    by (simp add: MONTH_MAP_def isDigit_def charCode_def parseDigits_def digitVal_def)
  have y: "parseDigits ''2025'' = 2025" "parseDigits ''14'' = 14" "parseDigits ''35'' = 35"
    by (simp_all add: parseDigits_def digitVal_def charCode_def)
  have hyp2: "list_all isDigit ''1435''
              \<and> toLocal utcHost (toUTC utcHost (MakeDate (MakeDay (parseDigits ''2025'') 9 1) 0))
                  = MakeDate (MakeDay (parseDigits ''2025'') 9 1) 0"
    by (simp add: isDigit_def charCode_def utcHost_def)
  note inst = parseNHTSADate_month_year
                [of utcHost "''OCT''" 9 "CHR ''2''" "CHR ''0''" "CHR ''2''" "CHR ''5''"
                    "CHR ''1''" "CHR ''4''" "CHR ''3''" "CHR ''5''"]
  note gen = inst [THEN conjunct2, THEN conjunct2, THEN mp, OF hyp]
  have c1: "parseNHTSADate utcHost (Some ''OCT-2025'') None = Some 1759276800000"
    using gen [THEN conjunct1] by (simp add: y MakeDay_evals MakeDate_def msPerDay_def utcHost_def)
  have c2: "parseNHTSADate utcHost (Some ''OCT-2025'') (Some ''14:35'') = Some 1759329300000"
    using gen [THEN conjunct2, THEN mp, OF hyp2]
    by (simp add: y MakeDay_evals MakeDate_def MakeTime_def msPerDay_def msPerHour_def
          msPerMinute_def msPerSecond_def utcHost_def)
  show ?thesis using c1 c2 by (intro conjI)
qed

text \<open>
  As stated (every four-digit year) the claim fails: \<^verbatim>\<open>new Date(50, 0, 1)\<close> is
  1 January 1950, so \<^verbatim>\<open>JAN-0050\<close> does not give the first day of January of the year 50.
\<close>

theorem parseNHTSADate_two_digit_year_counterexample:
  "MONTH_MAP ''JAN'' = Some 0
   \<and> list_all isDigit ''0050''
   \<and> parseNHTSADate utcHost (Some ''JAN-0050'') None
        \<noteq> Some (toUTC utcHost (MakeDate (MakeDay (parseDigits ''0050'') 0 1) 0))
   \<and> parseNHTSADate utcHost (Some ''JAN-0050'') None
        = Some (toUTC utcHost (MakeDate (MakeDay 1950 0 1) 0))"
  by (simp add: parseNHTSADate_evals(2) MakeDay_evals MakeDate_def msPerDay_def utcHost_def
        MONTH_MAP_def isDigit_def charCode_def parseDigits_def digitVal_def)

section \<open>Rounding to a double\<close>

lemma pow2_powr: "pow2 e = 2 powr (of_int e)"
  unfolding pow2_def by (simp add: powr_real_of_int field_simps)

lemma pow2_pos [simp]: "0 < pow2 e"
  by (simp add: pow2_powr)

lemma pow2_nonneg [simp]: "0 \<le> pow2 e"
  using pow2_pos [of e] by linarith

lemma pow2_neq0 [simp]: "pow2 e \<noteq> 0"
  using pow2_pos [of e] by linarith

lemma pow2_not_le0 [simp]: "\<not> pow2 e \<le> 0"
  using pow2_pos [of e] by linarith

lemma pow2_add: "pow2 (a + b) = pow2 a * pow2 b"
  by (simp add: pow2_powr powr_add)

lemma pow2_less_iff: "(pow2 a < pow2 b) = (a < b)"
  by (simp add: pow2_powr)

lemma pow2_le_iff: "(pow2 a \<le> pow2 b) = (a \<le> b)"
  by (simp add: pow2_powr)

lemma pow2_succ: "pow2 (e + 1) = 2 * pow2 e"
  by (simp add: pow2_powr powr_add)

lemma pow2_pred: "pow2 (e - 1) = pow2 e / 2"
  using pow2_succ [of "e - 1"] by simp

lemma binade_bounds: "0 < x \<Longrightarrow> pow2 (binade x) \<le> x \<and> x < pow2 (binade x + 1)"
proof (induction x rule: binade.induct)
  case (1 x)
  show ?case
  proof (cases "2 \<le> x")
    case True
    have "pow2 (binade (x / 2)) \<le> x / 2 \<and> x / 2 < pow2 (binade (x / 2) + 1)"
      using 1 True by simp
    moreover have "binade x = binade (x / 2) + 1"
      using True 1(3) by (subst binade.simps) simp
    ultimately show ?thesis
      using pow2_succ [of "binade (x / 2)"] pow2_succ [of "binade (x / 2) + 1"] by auto
  next
    case False
    show ?thesis
    proof (cases "x < 1")
      case True
      have "pow2 (binade (2 * x)) \<le> 2 * x \<and> 2 * x < pow2 (binade (2 * x) + 1)"
        using 1 True False by simp
      moreover have "binade x = binade (2 * x) - 1"
        using True False 1(3) by (subst binade.simps) simp
      ultimately show ?thesis
        using pow2_pred [of "binade (2 * x)"] pow2_succ [of "binade (2 * x)"] by auto
    next
      case b: False
      have "binade x = 0" using False b 1(3) by (subst binade.simps) simp
      thus ?thesis using False b by (simp add: pow2_def)
    qed
  qed
qed

lemma binade_unique:
  assumes "pow2 e \<le> x" and "x < pow2 (e + 1)"
  shows "binade x = e"
proof -
  have pos: "0 < x" using assms(1) pow2_pos [of e] by linarith
  note b = binade_bounds [OF pos]
  have "pow2 e < pow2 (binade x + 1)" using assms(1) b by linarith
  hence "e \<le> binade x" by (simp add: pow2_less_iff)
  moreover have "pow2 (binade x) < pow2 (e + 1)" using assms(2) b by linarith
  hence "binade x \<le> e" by (simp add: pow2_less_iff)
  ultimately show ?thesis by simp
qed

lemma overflows_iff: "overflows y = (pow2 1024 \<le> \<bar>y\<bar>)"
proof (cases "y = 0")
  case True thus ?thesis by (simp add: overflows_def)
next
  case False
  hence pos: "0 < \<bar>y\<bar>" by simp
  note b = binade_bounds [OF pos]
  show ?thesis
  proof
    assume "overflows y"
    hence "pow2 1024 \<le> pow2 (binade \<bar>y\<bar>)" by (simp add: overflows_def pow2_le_iff)
    thus "pow2 1024 \<le> \<bar>y\<bar>" using b by linarith
  next
    assume "pow2 1024 \<le> \<bar>y\<bar>"
    hence "pow2 1024 < pow2 (binade \<bar>y\<bar> + 1)" using b by linarith
    hence "1024 \<le> binade \<bar>y\<bar>" by (simp add: pow2_less_iff)
    thus "overflows y" using False by (simp add: overflows_def)
  qed
qed

lemma roundEven_near: "\<bar>y - of_int m\<bar> < 1 / 2 \<Longrightarrow> roundEven y = m"
proof -
  assume a: "\<bar>y - of_int m\<bar> < 1 / 2"
  show ?thesis
  proof (cases "of_int m \<le> y")
    case True
    hence "\<lfloor>y\<rfloor> = m" using a by (intro floor_unique) linarith+
    thus ?thesis using a True unfolding roundEven_def by (simp add: Let_def)
  next
    case False
    have f: "\<lfloor>y\<rfloor> = m - 1"
    proof (rule floor_unique)
      show "real_of_int (m - 1) \<le> y" using a False unfolding of_int_diff of_int_1 by linarith
      show "y < real_of_int (m - 1) + 1" using a False unfolding of_int_diff of_int_1 by linarith
    qed
    show ?thesis using a False unfolding roundEven_def f by (simp add: Let_def)
  qed
qed

lemma roundEven_of_int [simp]: "roundEven (of_int m) = m"
  by (rule roundEven_near) simp

lemma roundEven_nonneg: "0 \<le> y \<Longrightarrow> 0 \<le> roundEven y"
  unfolding roundEven_def by (simp add: Let_def)

lemma roundEven_nonpos: "y \<le> 0 \<Longrightarrow> roundEven y \<le> 0"
proof -
  assume a: "y \<le> 0"
  show ?thesis
  proof (cases "y = 0")
    case True thus ?thesis by (simp add: roundEven_def)
  next
    case False
    hence "\<lfloor>y\<rfloor> \<le> - 1" using a by (simp add: floor_le_iff)
    thus ?thesis unfolding roundEven_def by (simp add: Let_def)
  qed
qed


lemma roundEven_ge: "of_int k \<le> y \<Longrightarrow> k \<le> roundEven y"
proof -
  assume "of_int k \<le> y"
  hence "k \<le> \<lfloor>y\<rfloor>" by (simp add: le_floor_iff)
  thus ?thesis unfolding roundEven_def by (simp add: Let_def)
qed

lemma ulpExponent_eq:
  assumes "pow2 e \<le> \<bar>x\<bar>" and "\<bar>x\<bar> < pow2 (e + 1)"
  shows "ulpExponent x = max (e - 52) (- 1074)"
  unfolding ulpExponent_def using binade_unique [OF assms] by simp

lemma numberValue_eval:
  assumes "pow2 e \<le> \<bar>x\<bar>" and "\<bar>x\<bar> < pow2 (e + 1)"
    and "u = max (e - 52) (- 1074)"
    and "\<bar>x / pow2 u - of_int m\<bar> < 1 / 2"
    and "\<bar>of_int m * pow2 u\<bar> < pow2 1024"
  shows "numberValue x = Num (of_int m * pow2 u)"
proof -
  have nz: "x \<noteq> 0" using assms(1) pow2_pos [of e] by auto
  have u: "ulpExponent x = u" using ulpExponent_eq [OF assms(1,2)] assms(3) by simp
  have "roundToDouble x = of_int m * pow2 u"
    unfolding roundToDouble_def u using nz roundEven_near [OF assms(4)] by simp
  thus ?thesis unfolding numberValue_def overflows_iff using assms(5) by (simp add: Let_def)
qed

lemma pow2_nat: "0 \<le> e \<Longrightarrow> pow2 e = of_int (2 ^ nat e)"
  unfolding pow2_def by simp

lemma pow2_diff: "pow2 (a - b) = pow2 a / pow2 b"
  by (simp add: pow2_powr powr_diff)

lemma roundToDouble_exact:
  assumes "x = of_int m * pow2 e" and "\<bar>m\<bar> < 2 ^ 53" and "- 1074 \<le> e"
  shows "roundToDouble x = x"
proof (cases "x = 0")
  case True thus ?thesis by (simp add: roundToDouble_def)
next
  case False
  have pos: "0 < \<bar>x\<bar>" using False by simp
  note b = binade_bounds [OF pos]
  have "\<bar>x\<bar> = of_int \<bar>m\<bar> * pow2 e" using assms(1) by (simp add: abs_mult)
  also have "\<dots> < 2 ^ 53 * pow2 e"
  proof -
    have "real_of_int \<bar>m\<bar> < real_of_int (2 ^ 53)" using assms(2) by (simp only: of_int_less_iff)
    thus ?thesis by simp
  qed
  also have "\<dots> = pow2 (53 + e)" unfolding pow2_add by (simp add: pow2_def)
  finally have "pow2 (binade \<bar>x\<bar>) < pow2 (53 + e)" using b by linarith
  hence "binade \<bar>x\<bar> - 52 \<le> e" by (simp add: pow2_less_iff)
  hence ue: "ulpExponent x \<le> e" unfolding ulpExponent_def using assms(3) by simp
  define u where "u = ulpExponent x"
  have d: "0 \<le> e - u" using ue u_def by simp
  have "x / pow2 u = of_int m * pow2 (e - u)" using assms(1) by (simp add: pow2_diff)
  also have "\<dots> = of_int (m * 2 ^ nat (e - u))" using pow2_nat [OF d] by simp
  finally have q: "x / pow2 u = of_int (m * 2 ^ nat (e - u))" .
  have "roundToDouble x = of_int (m * 2 ^ nat (e - u)) * pow2 u"
    unfolding roundToDouble_def using False q u_def by (simp del: of_int_mult of_int_power)
  also have "\<dots> = x / pow2 u * pow2 u" using q by simp
  also have "\<dots> = x" by simp
  finally show ?thesis .
qed

lemma numberValue_exact:
  assumes "x = of_int m * pow2 e" and "\<bar>m\<bar> < 2 ^ 53" and "- 1074 \<le> e" and "e \<le> 971"
  shows "numberValue x = Num x"
proof -
  have "\<bar>x\<bar> = of_int \<bar>m\<bar> * pow2 e" using assms(1) by (simp add: abs_mult)
  also have "\<dots> < 2 ^ 53 * pow2 e"
  proof -
    have "real_of_int \<bar>m\<bar> < real_of_int (2 ^ 53)" using assms(2) by (simp only: of_int_less_iff)
    thus ?thesis by simp
  qed
  also have "\<dots> = pow2 (53 + e)" unfolding pow2_add by (simp add: pow2_def)
  also have "\<dots> \<le> pow2 1024" using assms(4) by (simp add: pow2_le_iff)
  finally have "\<bar>x\<bar> < pow2 1024" .
  thus ?thesis
    unfolding numberValue_def overflows_iff roundToDouble_exact [OF assms(1,2,3)]
    by (simp add: Let_def)
qed

lemma roundToDouble_nonneg: "0 \<le> x \<Longrightarrow> 0 \<le> roundToDouble x"
  unfolding roundToDouble_def by (auto intro!: mult_nonneg_nonneg roundEven_nonneg)

lemma roundToDouble_nonpos: "x \<le> 0 \<Longrightarrow> roundToDouble x \<le> 0"
  unfolding roundToDouble_def
  by (auto intro!: mult_nonpos_nonneg roundEven_nonpos divide_nonpos_pos)

lemma roundToDouble_of_int: "\<exists>k. roundToDouble (of_int n) = of_int k"
proof (cases "n = 0")
  case True thus ?thesis by (simp add: roundToDouble_def)
next
  case False
  define x :: real where "x = of_int n"
  have one: "pow2 0 \<le> \<bar>x\<bar>"
  proof -
    have "1 \<le> \<bar>n\<bar>" using False by simp
    hence "real_of_int 1 \<le> real_of_int \<bar>n\<bar>" by (simp only: of_int_le_iff)
    thus ?thesis unfolding x_def by (simp add: pow2_def)
  qed
  have pos: "0 < \<bar>x\<bar>" using one pow2_pos [of 0] by linarith
  note b = binade_bounds [OF pos]
  have "pow2 0 < pow2 (binade \<bar>x\<bar> + 1)" using one b by linarith
  hence b0: "0 \<le> binade \<bar>x\<bar>" by (simp add: pow2_less_iff)
  define u where "u = ulpExponent x"
  show ?thesis
  proof (cases "0 \<le> u")
    case True
    have "roundToDouble x = of_int (roundEven (x / pow2 u) * 2 ^ nat u)"
      unfolding roundToDouble_def using False x_def u_def pow2_nat [OF True] by simp
    thus ?thesis unfolding x_def by blast
  next
    case neg: False
    have d: "0 \<le> - u" using neg by simp
    have "x / pow2 u = x * pow2 (- u)" using pow2_diff [of 0 u] by (simp add: pow2_def)
    also have "\<dots> = of_int (n * 2 ^ nat (- u))" using pow2_nat [OF d] x_def by simp
    finally have q: "x / pow2 u = of_int (n * 2 ^ nat (- u))" .
    have "roundToDouble x = of_int (n * 2 ^ nat (- u)) * pow2 u"
      unfolding roundToDouble_def using False q u_def x_def by (simp del: of_int_mult of_int_power)
    also have "\<dots> = x / pow2 u * pow2 u" using q by simp
    also have "\<dots> = x" by simp
    finally show ?thesis unfolding x_def by blast
  qed
qed

lemma numberValue_of_int:
  "numberValue (of_int n) = PosInfinity \<or> numberValue (of_int n) = NegInfinity
     \<or> (\<exists>k. numberValue (of_int n) = Num (of_int k))"
proof -
  obtain k where "roundToDouble (of_int n) = of_int k" using roundToDouble_of_int by blast
  thus ?thesis unfolding numberValue_def by (simp add: Let_def)
qed

lemma numberValue_overflow:
  assumes "pow2 1024 \<le> x"
  shows "numberValue x = PosInfinity"
proof -
  have pos: "0 < x" using assms pow2_pos [of 1024] by linarith
  hence ax: "\<bar>x\<bar> = x" by simp
  note b = binade_bounds [OF pos]
  have "pow2 1024 < pow2 (binade x + 1)" using assms b by linarith
  hence b0: "1024 \<le> binade x" by (simp add: pow2_less_iff)
  hence u: "ulpExponent x = binade x - 52" unfolding ulpExponent_def ax by simp
  have "pow2 (binade x) / pow2 (binade x - 52) \<le> x / pow2 (binade x - 52)"
    by (rule divide_right_mono) (simp_all add: b)
  moreover have "pow2 (binade x) / pow2 (binade x - 52) = pow2 52"
    using pow2_diff [of "binade x" "binade x - 52"] by simp
  moreover have "pow2 52 = of_int (2 ^ 52)" using pow2_nat [of 52] by simp
  ultimately have "of_int (2 ^ 52) \<le> x / pow2 (binade x - 52)" by simp
  hence "2 ^ 52 \<le> roundEven (x / pow2 (binade x - 52))" by (rule roundEven_ge)
  hence "real_of_int (2 ^ 52) \<le> real_of_int (roundEven (x / pow2 (binade x - 52)))"
    by (simp only: of_int_le_iff)
  hence "pow2 52 * pow2 (binade x - 52) \<le> of_int (roundEven (x / pow2 (binade x - 52))) * pow2 (binade x - 52)"
    using \<open>pow2 52 = of_int (2 ^ 52)\<close> by (simp add: mult_right_mono)
  moreover have "pow2 52 * pow2 (binade x - 52) = pow2 (binade x)"
    using pow2_add [of 52 "binade x - 52"] by simp
  ultimately have "pow2 (binade x) \<le> roundToDouble x"
    unfolding roundToDouble_def u using pos by simp
  moreover have "pow2 1024 \<le> pow2 (binade x)" using b0 by (simp add: pow2_le_iff)
  ultimately have "pow2 1024 \<le> roundToDouble x" by linarith
  moreover have "0 < roundToDouble x" using calculation pow2_pos [of 1024] by linarith
  ultimately show ?thesis unfolding numberValue_def overflows_iff by (simp add: Let_def)
qed

lemma numberValue_nonneg:
  assumes "0 \<le> x"
  shows "numberValue x = PosInfinity \<or> (\<exists>y. 0 \<le> y \<and> numberValue x = Num y)"
proof -
  have "0 \<le> roundToDouble x" using assms by (rule roundToDouble_nonneg)
  thus ?thesis unfolding numberValue_def by (auto simp: Let_def overflows_def)
qed

lemma numberValue_small_int:
  "\<bar>n\<bar> < 2 ^ 53 \<Longrightarrow> numberValue (of_int n) = Num (of_int n)"
  by (rule numberValue_exact [of _ n 0]) (simp_all add: pow2_def)

lemma numberValue_zero [simp]: "numberValue 0 = Num 0"
  by (simp add: numberValue_def roundToDouble_def overflows_def)

text \<open>
  The doubles next to one half: a number rounds to more than 0.5 exactly when it lies
  above the midpoint of 0.5 and the next double, \<^verbatim>\<open>0.5 + 2^-54\<close>.
\<close>

lemma roundEven_le: "y \<le> of_int k \<Longrightarrow> roundEven y \<le> k"
proof -
  assume a: "y \<le> of_int k"
  show ?thesis
  proof (cases "y = of_int k")
    case True thus ?thesis by simp
  next
    case False
    hence "y < of_int k" using a by simp
    hence "\<lfloor>y\<rfloor> < k" by (simp add: floor_less_iff)
    thus ?thesis unfolding roundEven_def by (simp add: Let_def)
  qed
qed

lemma roundEven_above_half: "of_int k + 1 / 2 < y \<Longrightarrow> k + 1 \<le> roundEven y"
proof -
  assume a: "of_int k + 1 / 2 < y"
  hence f: "k \<le> \<lfloor>y\<rfloor>" by (simp add: le_floor_iff)
  show ?thesis
  proof (cases "k = \<lfloor>y\<rfloor>")
    case True
    hence "1 / 2 < y - of_int \<lfloor>y\<rfloor>" using a by simp
    thus ?thesis unfolding roundEven_def using True by (simp add: Let_def)
  next
    case False
    hence "k + 1 \<le> \<lfloor>y\<rfloor>" using f by simp
    thus ?thesis unfolding roundEven_def by (simp add: Let_def)
  qed
qed

lemma roundEven_upto_half: "y \<le> of_int k + 1 / 2 \<Longrightarrow> even k \<Longrightarrow> roundEven y \<le> k"
proof -
  assume a: "y \<le> of_int k + 1 / 2" and e: "even k"
  have "y < of_int k + 1" using a by simp
  hence f: "\<lfloor>y\<rfloor> \<le> k" by (simp add: floor_le_iff)
  show ?thesis
  proof (cases "k = \<lfloor>y\<rfloor>")
    case True
    hence "y - of_int \<lfloor>y\<rfloor> \<le> 1 / 2" using a by simp
    thus ?thesis unfolding roundEven_def using True e by (auto simp: Let_def)
  next
    case False
    hence "\<lfloor>y\<rfloor> + 1 \<le> k" using f by simp
    thus ?thesis unfolding roundEven_def by (simp add: Let_def)
  qed
qed

lemma roundToDouble_ge_binade:
  assumes "0 < y" and "- 1022 \<le> binade y"
  shows "pow2 (binade y) \<le> roundToDouble y"
proof -
  have ay: "\<bar>y\<bar> = y" using assms(1) by simp
  note b = binade_bounds [OF assms(1)]
  have u: "ulpExponent y = binade y - 52" unfolding ulpExponent_def ay using assms(2) by simp
  have "pow2 (binade y) / pow2 (binade y - 52) \<le> y / pow2 (binade y - 52)"
    by (rule divide_right_mono) (simp_all add: b)
  moreover have "pow2 (binade y) / pow2 (binade y - 52) = pow2 52"
    using pow2_diff [of "binade y" "binade y - 52"] by simp
  moreover have p52: "pow2 52 = of_int (2 ^ 52)" using pow2_nat [of 52] by simp
  ultimately have "of_int (2 ^ 52) \<le> y / pow2 (binade y - 52)" by simp
  hence "2 ^ 52 \<le> roundEven (y / pow2 (binade y - 52))" by (rule roundEven_ge)
  hence "real_of_int (2 ^ 52) \<le> real_of_int (roundEven (y / pow2 (binade y - 52)))"
    by (simp only: of_int_le_iff)
  hence "pow2 52 * pow2 (binade y - 52) \<le> of_int (roundEven (y / pow2 (binade y - 52))) * pow2 (binade y - 52)"
    using p52 by (simp add: mult_right_mono)
  moreover have "pow2 52 * pow2 (binade y - 52) = pow2 (binade y)"
    using pow2_add [of 52 "binade y - 52"] by simp
  ultimately show ?thesis
    unfolding roundToDouble_def u using assms(1) by simp
qed

lemma roundToDouble_le_binade:
  assumes "0 < y"
  shows "roundToDouble y \<le> pow2 (binade y + 1)"
proof -
  have ay: "\<bar>y\<bar> = y" using assms(1) by simp
  note b = binade_bounds [OF assms(1)]
  define u where "u = ulpExponent y"
  have r: "roundToDouble y = of_int (roundEven (y / pow2 u)) * pow2 u"
    unfolding roundToDouble_def u_def using assms by simp
  have z: "y / pow2 u < pow2 (binade y + 1 - u)"
    using b by (simp add: pow2_diff divide_strict_right_mono)
  show ?thesis
  proof (cases "0 \<le> binade y + 1 - u")
    case True
    have "y / pow2 u \<le> of_int (2 ^ nat (binade y + 1 - u))"
      using z pow2_nat [OF True] by simp
    hence "roundEven (y / pow2 u) \<le> 2 ^ nat (binade y + 1 - u)" by (rule roundEven_le)
    hence "real_of_int (roundEven (y / pow2 u)) \<le> real_of_int (2 ^ nat (binade y + 1 - u))"
      by (simp only: of_int_le_iff)
    hence "real_of_int (roundEven (y / pow2 u)) \<le> pow2 (binade y + 1 - u)"
      using pow2_nat [OF True] by simp
    hence "real_of_int (roundEven (y / pow2 u)) * pow2 u \<le> pow2 (binade y + 1 - u) * pow2 u"
      by (simp add: mult_right_mono)
    moreover have "pow2 (binade y + 1 - u) * pow2 u = pow2 (binade y + 1)"
      using pow2_add [of "binade y + 1 - u" u] by simp
    ultimately show ?thesis unfolding r by simp
  next
    case False
    hence "binade y + 1 - u \<le> - 1" by simp
    hence "pow2 (binade y + 1 - u) \<le> pow2 (- 1)" by (simp add: pow2_le_iff)
    moreover have "pow2 (- 1) = 1 / 2" by (simp add: pow2_def)
    ultimately have "y / pow2 u < 1 / 2" using z by linarith
    moreover have "0 \<le> y / pow2 u" using assms by simp
    ultimately have "\<bar>y / pow2 u - real_of_int 0\<bar> < 1 / 2" by (simp only: of_int_0 diff_zero)
    hence "roundEven (y / pow2 u) = 0" by (rule roundEven_near)
    thus ?thesis unfolding r by simp
  qed
qed

lemma numberValue_above_half: "0 \<le> y \<Longrightarrow> numGreater (numberValue y) (1 / 2) = (1 / 2 + 1 / 2 ^ 54 < y)"
proof -
  assume nn: "0 \<le> y"
  show ?thesis
  proof (cases "1 / 2 + 1 / 2 ^ 54 < y")
    case True
    hence pos: "0 < y" by simp
    have ay: "\<bar>y\<bar> = y" using pos by simp
    have half: "pow2 (- 1) \<le> y" using True by (simp add: pow2_def)
    note b = binade_bounds [OF pos]
    have "pow2 (- 1) < pow2 (binade y + 1)" using half b by linarith
    hence b1: "- 1 \<le> binade y" by (simp add: pow2_less_iff)
    have r: "1 / 2 < roundToDouble y"
    proof (cases "binade y = - 1")
      case True
      have u: "ulpExponent y = - 53" unfolding ulpExponent_def ay True by simp
      have "of_int (2 ^ 52) + 1 / 2 < y / pow2 (- 53)"
        using \<open>1 / 2 + 1 / 2 ^ 54 < y\<close> by (simp add: pow2_def field_simps)
      hence "2 ^ 52 + 1 \<le> roundEven (y / pow2 (- 53))" by (rule roundEven_above_half)
      hence "real_of_int (2 ^ 52 + 1) \<le> real_of_int (roundEven (y / pow2 (- 53)))"
        by (simp only: of_int_le_iff)
      hence "real_of_int (2 ^ 52 + 1) * pow2 (- 53) \<le> real_of_int (roundEven (y / pow2 (- 53))) * pow2 (- 53)"
        by (simp add: mult_right_mono)
      moreover have "1 / 2 < real_of_int (2 ^ 52 + 1) * pow2 (- 53)" by (simp add: pow2_def)
      ultimately have "1 / 2 < real_of_int (roundEven (y / pow2 (- 53))) * pow2 (- 53)" by linarith
      thus ?thesis unfolding roundToDouble_def u using pos by simp
    next
      case False
      hence "0 \<le> binade y" using b1 by simp
      hence "pow2 0 \<le> pow2 (binade y)" by (simp add: pow2_le_iff)
      moreover have "pow2 (binade y) \<le> roundToDouble y"
        using pos b1 by (intro roundToDouble_ge_binade) simp_all
      ultimately show ?thesis by (simp add: pow2_def)
    qed
    thus ?thesis using True unfolding numberValue_def by (simp add: Let_def numGreater_def)
  next
    case False
    have r: "roundToDouble y \<le> 1 / 2"
    proof (cases "y = 0")
      case True thus ?thesis by (simp add: roundToDouble_def)
    next
      case nz: False
      hence pos: "0 < y" using nn by simp
      have ay: "\<bar>y\<bar> = y" using pos by simp
      note b = binade_bounds [OF pos]
      show ?thesis
      proof (cases "y < 1 / 2")
        case True
        hence "pow2 (binade y) < pow2 (- 1)" using b by (simp add: pow2_def)
        hence "binade y + 1 \<le> - 1" by (simp add: pow2_less_iff)
        hence "pow2 (binade y + 1) \<le> pow2 (- 1)" by (simp add: pow2_le_iff)
        thus ?thesis using roundToDouble_le_binade [OF pos] by (simp add: pow2_def)
      next
        case ge: False
        have "pow2 (- 1) \<le> y" using ge by (simp add: pow2_def)
        moreover have "y < pow2 (- 1 + 1)" using False by (simp add: pow2_def) 
        ultimately have bn: "binade y = - 1" by (rule binade_unique)
        have u: "ulpExponent y = - 53" unfolding ulpExponent_def ay bn by simp
        have "y / pow2 (- 53) \<le> of_int (2 ^ 52) + 1 / 2"
          using False by (simp add: pow2_def field_simps)
        hence "roundEven (y / pow2 (- 53)) \<le> 2 ^ 52"
          by (rule roundEven_upto_half) simp
        hence "real_of_int (roundEven (y / pow2 (- 53))) \<le> real_of_int (2 ^ 52)"
          by (simp only: of_int_le_iff)
        hence "real_of_int (roundEven (y / pow2 (- 53))) * pow2 (- 53) \<le> real_of_int (2 ^ 52) * pow2 (- 53)"
          by (simp add: mult_right_mono)
        moreover have "real_of_int (2 ^ 52) * pow2 (- 53) = 1 / 2" by (simp add: pow2_def)
        ultimately have "real_of_int (roundEven (y / pow2 (- 53))) * pow2 (- 53) \<le> 1 / 2" by linarith
        thus ?thesis unfolding roundToDouble_def u using pos by simp
      qed
    qed
    have "\<not> overflows (roundToDouble y)"
    proof -
      have "\<bar>roundToDouble y\<bar> \<le> 1 / 2" using r roundToDouble_nonneg [OF nn] by simp
      moreover have "(1 / 2 :: real) < pow2 1024" using pow2_less_iff [of "- 1" 1024] by (simp add: pow2_def [of "- 1"])
      ultimately show ?thesis unfolding overflows_iff by linarith
    qed
    thus ?thesis using False r unfolding numberValue_def by (simp add: Let_def numGreater_def)
  qed
qed

section \<open>Geocoding and record processing\<close>


text \<open>
  The test \<^verbatim>\<open>distance > 0.5\<close> on the sum of the squares: the square root rounds to
  more than 0.5 exactly when the sum is above \<^verbatim>\<open>(0.5 + 2^-54)^2\<close>.
\<close>

lemma sqrt_above: "0 < t \<Longrightarrow> (t < sqrt s) = (t\<^sup>2 < s)"
proof -
  assume t: "0 < t"
  have "(t < sqrt s) = (sqrt (t\<^sup>2) < sqrt s)" using t by simp
  also have "\<dots> = (t\<^sup>2 < s)" by (rule real_sqrt_less_iff)
  finally show ?thesis .
qed

lemma tooFar_squares [code]:
  "tooFar la lo cc =
     (case numAdd (numSquare (numSub la (g_lat cc))) (numSquare (numSub lo (g_lng cc))) of
        Num s \<Rightarrow> (1 / 2 + 1 / 2 ^ 54)\<^sup>2 < s
      | PosInfinity \<Rightarrow> True
      | _ \<Rightarrow> False)"
proof (cases "numAdd (numSquare (numSub la (g_lat cc))) (numSquare (numSub lo (g_lng cc)))")
  case (Num s)
  show ?thesis
  proof (cases "s < 0")
    case True
    have "(0::real) \<le> (1 / 2 + 1 / 2 ^ 54)\<^sup>2" by simp
    hence "\<not> (1 / 2 + 1 / 2 ^ 54)\<^sup>2 < s" using True by linarith
    thus ?thesis using True Num by (simp add: tooFar_def distance_def numSqrt_def numGreater_def)
  next
    case False
    hence "numGreater (numberValue (sqrt s)) (1 / 2) = (1 / 2 + 1 / 2 ^ 54 < sqrt s)"
      by (intro numberValue_above_half) simp
    also have "\<dots> = ((1 / 2 + 1 / 2 ^ 54)\<^sup>2 < s)"
      by (rule sqrt_above) simp
    finally show ?thesis using False Num by (simp add: tooFar_def distance_def numSqrt_def)
  qed
qed (simp_all add: tooFar_def distance_def numSqrt_def numGreater_def)

subsection \<open>What a processed record holds\<close>

lemma processRecord_ids:
  "external_id (incident (processed (processRecord t l p e gc sc r i)))
     = p @ orDefault (r ''Report Number'') (t @ showNat i)"
  by (simp add: processRecord_def Let_def)

lemma processRecord_counts:
  "fatalities (incident (processed (processRecord t l p e gc sc r i))) = countField r ''Deaths'' ''Fatalities''"
  "injuries (incident (processed (processRecord t l p e gc sc r i))) = countField r ''Injuries'' ''Persons Injured''"
  by (simp_all add: processRecord_def Let_def)

lemma processRecord_city:
  "city (incident (processed (processRecord t l p e gc sc r i))) = recordCity r"
  by (simp add: processRecord_def Let_def)

lemma processRecord_occurred:
  "occurred_at (incident (processed (processRecord t l p e gc sc r i)))
     = (case parseNHTSADate (host e) (orElse (r ''Incident Date'') (r ''Date of Incident''))
               (r ''Incident Time (24:00)'') of
          Some d \<Rightarrow> d | None \<Rightarrow> now_occurred e)"
  by (simp add: processRecord_def Let_def)

lemma processRecord_real:
  assumes "parseNHTSACoordinates r = Some c"
  shows "location (incident (processed (processRecord t l p e gc sc r i))) = c"
    and "hasRealCoords (processed (processRecord t l p e gc sc r i))"
    and "\<not> hasStreetCoords (processed (processRecord t l p e gc sc r i))"
    and "calls (processRecord t l p e gc sc r i) = []"
    and "cacheWrite (processRecord t l p e gc sc r i) = None"
    and "address (incident (processed (processRecord t l p e gc sc r i)))
           = (if truthy (orElse (r ''Address'') (r ''Street'')) then orElse (r ''Address'') (r ''Street'') else None)"
  using assms by (simp_all add: processRecord_def Let_def orElse_def truthy_def)

lemma processRecord_street:
  assumes "parseNHTSACoordinates r = None"
    and "extractLocationFromNarrative (matchPattern e) (orDefault (r ''Narrative'') []) = Some a"
    and "a \<noteq> []"
  shows "hasStreetCoords (processed (processRecord t l p e gc sc r i))
           = (fst (geocodeStreetAddress e gc sc a (recordCity r) (recordState r)) \<noteq> None)"
    and "cacheWrite (processRecord t l p e gc sc r i)
           = fst (snd (geocodeStreetAddress e gc sc a (recordCity r) (recordState r)))"
    and "calls (processRecord t l p e gc sc r i)
           = NarrativeExtraction (orDefault (r ''Narrative'') [])
               # snd (snd (geocodeStreetAddress e gc sc a (recordCity r) (recordState r)))"
    and "location (incident (processed (processRecord t l p e gc sc r i)))
           = (case fst (geocodeStreetAddress e gc sc a (recordCity r) (recordState r)) of
                Some g \<Rightarrow> \<lparr> lat = Num (g_lat g), lng = Num (g_lng g) \<rparr>
              | None \<Rightarrow> getCoordinates gc (random_lat e) (random_lng e) (recordCity r) (recordState r))"
    and "\<not> hasRealCoords (processed (processRecord t l p e gc sc r i))"
  using assms by (simp_all add: processRecord_def Let_def truthy_def)

lemma processRecord_no_street:
  assumes "parseNHTSACoordinates r = None"
    and "\<not> truthy (extractLocationFromNarrative (matchPattern e) (orDefault (r ''Narrative'') []))"
  shows "\<not> hasStreetCoords (processed (processRecord t l p e gc sc r i))"
    and "cacheWrite (processRecord t l p e gc sc r i) = None"
    and "location (incident (processed (processRecord t l p e gc sc r i)))
           = getCoordinates gc (random_lat e) (random_lng e) (recordCity r) (recordState r)"
  using assms by (simp_all add: processRecord_def Let_def)



lemma parseFloat_Nil: "parseFloat [] = NaN"
  by (simp add: parseFloat_def trimStart_def)

lemma parseNHTSACoordinates_valid:
  assumes "r ''Latitude'' = Some a" and "r ''Longitude'' = Some b"
    and "parseFloat (trim a) = Num la" and "parseFloat (trim b) = Num lo"
    and "map_option toLowerCase (r ''Latitude - Unknown'') \<noteq> Some ''yes''"
    and "map_option toLowerCase (r ''Longitude - Unknown'') \<noteq> Some ''yes''"
    and "18 \<le> la" and "la \<le> 72" and "- 180 \<le> lo" and "lo \<le> - 65"
  shows "parseNHTSACoordinates r = Some \<lparr> lat = Num la, lng = Num lo \<rparr>"
proof -
  have "trim a \<noteq> []" "trim b \<noteq> []"
    using assms(3,4) parseFloat_Nil by auto
  then show ?thesis
    using assms
    by (simp add: parseNHTSACoordinates_def Let_def truthy_def isNaN_def numLess_def numGreater_def)
qed

text \<open>
  Claim C3. A record whose latitude and longitude fields are present, numeric, not flagged
  unknown and within latitude 18 to 72 and longitude -180 to -65 gets exactly those two
  numbers as its location, from \<^verbatim>\<open>processADSRecord\<close> and from
  \<^verbatim>\<open>processADASRecord\<close>; the narrative is not searched, no request goes to the
  geocoding service and nothing is written to the street cache.
\<close>

theorem real_gps_used_directly:
  assumes "r ''Latitude'' = Some a" and "r ''Longitude'' = Some b"
    and "parseFloat (trim a) = Num la" and "parseFloat (trim b) = Num lo"
    and "map_option toLowerCase (r ''Latitude - Unknown'') \<noteq> Some ''yes''"
    and "map_option toLowerCase (r ''Longitude - Unknown'') \<noteq> Some ''yes''"
    and "18 \<le> la" and "la \<le> 72" and "- 180 \<le> lo" and "lo \<le> - 65"
    and "f = processADSRecord \<or> f = processADASRecord"
  shows "location (incident (processed (f e gc sc r i))) = \<lparr> lat = Num la, lng = Num lo \<rparr>
         \<and> hasRealCoords (processed (f e gc sc r i))
         \<and> \<not> hasStreetCoords (processed (f e gc sc r i))
         \<and> calls (f e gc sc r i) = []
         \<and> cacheWrite (f e gc sc r i) = None"
proof -
  have c: "parseNHTSACoordinates r = Some \<lparr> lat = Num la, lng = Num lo \<rparr>"
    using assms(1-10) by (rule parseNHTSACoordinates_valid)
  from assms(11) show ?thesis
  proof
    assume "f = processADSRecord"
    then show ?thesis
      unfolding processADSRecord_def using processRecord_real [OF c] by simp
  next
    assume "f = processADASRecord"
    then show ?thesis
      unfolding processADASRecord_def using processRecord_real [OF c] by simp
  qed
qed

lemma numberValue_samples:
  "numberValue 37.7749 = Num (5316344548873680 / 2 ^ 47)"
  "numberValue (- 122.4194) = Num (- (8614499440983120 / 2 ^ 46))"
proof -
  show "numberValue 37.7749 = Num (5316344548873680 / 2 ^ 47)"
    using numberValue_eval [of 5 "37.7749" "- 47" 5316344548873680] by (simp add: pow2_def)
  show "numberValue (- 122.4194) = Num (- (8614499440983120 / 2 ^ 46))"
    using numberValue_eval [of 6 "- 122.4194" "- 46" "- 8614499440983120"] by (simp add: pow2_def)
qed

lemma parseFloat_samples:
  "parseFloat (trim '' 37.7749 '') = Num (5316344548873680 / 2 ^ 47)"
  "parseFloat (trim ''-122.4194'') = Num (- (8614499440983120 / 2 ^ 46))"
proof -
  have "parseFloat (trim '' 37.7749 '') = numberValue 37.7749"
    by (simp add: trim_def parseFloat_def trimStart_def isWhite_def signedDecimal_def unsignedDecimal_def
          isDigit_def charCode_def parseDigits_def digitVal_def exponentPart_def scale10_def)
  thus "parseFloat (trim '' 37.7749 '') = Num (5316344548873680 / 2 ^ 47)"
    by (simp only: numberValue_samples)
  have "parseFloat (trim ''-122.4194'') = numberValue (- 122.4194)"
    by (simp add: trim_def parseFloat_def trimStart_def isWhite_def signedDecimal_def unsignedDecimal_def
          isDigit_def charCode_def parseDigits_def digitVal_def exponentPart_def scale10_def)
  thus "parseFloat (trim ''-122.4194'') = Num (- (8614499440983120 / 2 ^ 46))"
    by (simp only: numberValue_samples)
qed

theorem real_gps_used_directly_witness:
  "location (incident (processed (processADSRecord (sampleEnv austinStreetService) austinCache Map.empty gpsRecord 0)))
     = \<lparr> lat = Num (5316344548873680 / 2 ^ 47), lng = Num (- (8614499440983120 / 2 ^ 46)) \<rparr>
   \<and> hasRealCoords (processed (processADSRecord (sampleEnv austinStreetService) austinCache Map.empty gpsRecord 0))
   \<and> \<not> hasStreetCoords (processed (processADSRecord (sampleEnv austinStreetService) austinCache Map.empty gpsRecord 0))
   \<and> calls (processADSRecord (sampleEnv austinStreetService) austinCache Map.empty gpsRecord 0) = []
   \<and> cacheWrite (processADSRecord (sampleEnv austinStreetService) austinCache Map.empty gpsRecord 0) = None"
proof -
  have h1: "gpsRecord ''Latitude'' = Some '' 37.7749 ''" "gpsRecord ''Longitude'' = Some ''-122.4194''"
    by (simp_all add: gpsRecord_def)
  have h2: "map_option toLowerCase (gpsRecord ''Latitude - Unknown'') \<noteq> Some ''yes''"
    "map_option toLowerCase (gpsRecord ''Longitude - Unknown'') \<noteq> Some ''yes''"
    by (simp_all add: gpsRecord_def narrativeRecord_def)
  have h3: "(18::real) \<le> 5316344548873680 / 2 ^ 47" "(5316344548873680 / 2 ^ 47 :: real) \<le> 72"
    "- 180 \<le> (- (8614499440983120 / 2 ^ 46) :: real)" "(- (8614499440983120 / 2 ^ 46) :: real) \<le> - 65"
    by simp_all
  have h4: "processADSRecord = processADSRecord \<or> processADSRecord = processADASRecord"
    by simp
  show ?thesis
    using real_gps_used_directly
            [where f = processADSRecord and e = "sampleEnv austinStreetService" and gc = austinCache
               and sc = Map.empty and i = 0, OF h1 parseFloat_samples h2 h3 h4] .
qed



lemma getCoordinates_cached:
  "cacheGet gc (cityKey cty st) = Some cc \<Longrightarrow>
   getCoordinates gc r1 r2 cty st
     = \<lparr> lat = Num (g_lat cc + (r1 - 0.5) * 0.04), lng = Num (g_lng cc + (r2 - 0.5) * 0.04) \<rparr>"
  by (simp add: getCoordinates_def)



lemma narrativeRecord_facts:
  "recordState narrativeRecord = ''TX''"
  "recordCity narrativeRecord = ''Austin''"
  "parseNHTSACoordinates narrativeRecord = None"
  "orDefault (narrativeRecord ''Narrative'') [] = ''collision on Market Street''"
  by (simp_all add: recordState_def recordCity_def narrativeRecord_def orDefault_def orElse_def truthy_def
        stateCity_def STATE_COORDS_def STATE_COORDS_table_def parseNHTSACoordinates_def)

lemma sample_extraction:
  "extractLocationFromNarrative (matchPattern (sampleEnv svc)) ''collision on Market Street''
     = Some ''Market Street''"
  by (simp add: extractLocationFromNarrative_def sampleEnv_def truthy_def cleanLocation_def Let_def
        toLowerCase_def lowerChar_def upperLetters_def lowerLetters_def isWhite_def trim_def)






subsection \<open>Counts\<close>

lemma foldl_digits_nonneg:
  "list_all isDigit s \<Longrightarrow> 0 \<le> k \<Longrightarrow> 0 \<le> foldl (\<lambda>n c. 10 * n + digitVal c) k s"
proof (induction s arbitrary: k)
  case Nil
  then show ?case by simp
next
  case (Cons c cs)
  then have "0 \<le> 10 * k + digitVal c"
    by (simp add: isDigit_def digitVal_def)
  then show ?case using Cons by simp
qed

lemma foldl_hex_nonneg:
  "list_all isHexDigit s \<Longrightarrow> 0 \<le> k \<Longrightarrow> 0 \<le> foldl (\<lambda>n c. 16 * n + hexVal c) k s"
proof (induction s arbitrary: k)
  case Nil
  then show ?case by simp
next
  case (Cons c cs)
  then have "isHexDigit c" by simp
  then have "0 \<le> hexVal c"
    by (auto simp: isHexDigit_def hexVal_def isDigit_def)
  then have "0 \<le> 16 * k + hexVal c" using Cons.prems(2) by simp
  then show ?case using Cons by simp
qed

lemma list_all_takeWhile: "list_all p (takeWhile p s)"
  by (induction s) auto

lemma parseUnsigned_nonneg: "parseUnsigned s = Some n \<Longrightarrow> 0 \<le> n"
proof -
  assume p: "parseUnsigned s = Some n"
  have a: "0 \<le> parseDigits (takeWhile isDigit s)"
    unfolding parseDigits_def by (rule foldl_digits_nonneg [OF list_all_takeWhile]) simp
  have b: "0 \<le> parseHexDigits (takeWhile isHexDigit (drop 2 s))"
    unfolding parseHexDigits_def by (rule foldl_hex_nonneg [OF list_all_takeWhile]) simp
  show ?thesis
    using p a b by (auto simp: parseUnsigned_def Let_def split: if_splits)
qed

lemma numberValue_count:
  assumes "0 \<le> n"
  shows "numberValue (real_of_int n) = PosInfinity \<or> (\<exists>k. 0 \<le> k \<and> numberValue (real_of_int n) = Num (of_int k))"
proof -
  have nn: "0 \<le> real_of_int n" using assms by simp
  from numberValue_nonneg [OF nn] show ?thesis
  proof
    assume "numberValue (real_of_int n) = PosInfinity"
    thus ?thesis by simp
  next
    assume "\<exists>y. 0 \<le> y \<and> numberValue (real_of_int n) = Num y"
    then obtain y where y: "0 \<le> y" "numberValue (real_of_int n) = Num y" by blast
    from numberValue_of_int [of n] y(2) obtain k where k: "y = real_of_int k" by auto
    hence "0 \<le> k" using y(1) by simp
    thus ?thesis using y(2) k by blast
  qed
qed

lemma signedInteger_shape:
  "(\<exists>k. signedInteger neg s = Num (of_int k)) \<or> signedInteger neg s = NaN
     \<or> signedInteger neg s = PosInfinity \<or> signedInteger neg s = NegInfinity"
proof (cases "parseUnsigned s")
  case None
  thus ?thesis by (simp add: signedInteger_def)
next
  case (Some n)
  have "signedInteger neg s = numberValue (real_of_int (if neg then - n else n))"
    using Some by (simp add: signedInteger_def)
  thus ?thesis using numberValue_of_int [of "if neg then - n else n"] by metis
qed

lemma signedInteger_count:
  "signedInteger False s = NaN \<or> signedInteger False s = PosInfinity
     \<or> (\<exists>k. 0 \<le> k \<and> signedInteger False s = Num (of_int k))"
proof (cases "parseUnsigned s")
  case None
  thus ?thesis by (simp add: signedInteger_def)
next
  case (Some n)
  have "0 \<le> n" using Some by (rule parseUnsigned_nonneg)
  thus ?thesis using numberValue_count [of n] Some by (simp add: signedInteger_def)
qed

lemma parseInt_shape:
  "(\<exists>k. parseInt s = Num (of_int k)) \<or> parseInt s = NaN
     \<or> parseInt s = PosInfinity \<or> parseInt s = NegInfinity"
proof (cases "trimStart s")
  case Nil
  thus ?thesis by (simp add: parseInt_def)
next
  case (Cons c cs)
  show ?thesis
    using signedInteger_shape [of True cs] signedInteger_shape [of False cs]
          signedInteger_shape [of False "c # cs"] Cons
    by (simp add: parseInt_def)
qed

lemma parseInt_count:
  assumes "take 1 (trimStart s) \<noteq> ''-''"
  shows "parseInt s = NaN \<or> parseInt s = PosInfinity \<or> (\<exists>k. 0 \<le> k \<and> parseInt s = Num (of_int k))"
proof (cases "trimStart s")
  case Nil
  thus ?thesis by (simp add: parseInt_def)
next
  case (Cons c cs)
  then have "c \<noteq> CHR ''-''" using assms by simp
  thus ?thesis
    using signedInteger_count [of cs] signedInteger_count [of "c # cs"] Cons
    by (simp add: parseInt_def)
qed

lemma parseUnsigned_no_digit: "s = [] \<or> \<not> isDigit (hd s) \<Longrightarrow> parseUnsigned s = None"
proof (cases s)
  case Nil
  thus ?thesis by (simp add: parseUnsigned_def)
next
  case (Cons c cs)
  assume "s = [] \<or> \<not> isDigit (hd s)"
  hence nd: "\<not> isDigit c" using Cons by simp
  hence c0: "c \<noteq> CHR ''0''" by (auto simp: isDigit_def charCode_def)
  show ?thesis using nd c0 Cons by (cases cs) (simp_all add: parseUnsigned_def)
qed

lemma parseInt_nonnumeric: "\<not> numericText s \<Longrightarrow> parseInt s = NaN"
proof (cases "trimStart s")
  case Nil
  thus ?thesis by (simp add: parseInt_def)
next
  case (Cons c cs)
  assume n: "\<not> numericText s"
  show ?thesis
  proof (cases "c = CHR ''-'' \<or> c = CHR ''+''")
    case True
    hence "cs = [] \<or> \<not> isDigit (hd cs)" using n Cons by (auto simp: numericText_def Let_def)
    hence "parseUnsigned cs = None" by (rule parseUnsigned_no_digit)
    thus ?thesis using True Cons by (auto simp: parseInt_def signedInteger_def)
  next
    case False
    hence "\<not> isDigit c" using n Cons by (auto simp: numericText_def Let_def)
    hence "parseUnsigned (c # cs) = None" by (intro parseUnsigned_no_digit) simp
    thus ?thesis using False Cons by (simp add: parseInt_def signedInteger_def)
  qed
qed

lemma isCount_of_int: "0 \<le> k \<Longrightarrow> isCount (Num (of_int k))"
  by (simp add: isCount_def)

lemma countField_absent:
  "\<not> truthy (r k1) \<Longrightarrow> \<not> truthy (r k2) \<Longrightarrow> countField r k1 k2 = Num 0"
proof -
  assume a: "\<not> truthy (r k1)" "\<not> truthy (r k2)"
  then have "countSource r k1 k2 = ''0''"
    by (auto simp: countSource_def orElse_def orDefault_def truthy_def split: option.splits)
  then show ?thesis
    by (simp add: countField_def orZero_def parseInt_def signedInteger_def parseUnsigned_def trimStart_def
          isWhite_def isDigit_def charCode_def parseDigits_def digitVal_def)
qed

lemma countField_count:
  assumes "take 1 (trimStart (countSource r k1 k2)) \<noteq> ''-''"
  shows "isCount (countField r k1 k2) \<or> countField r k1 k2 = PosInfinity"
proof -
  from parseInt_count [OF assms]
  consider "parseInt (countSource r k1 k2) = NaN" | "parseInt (countSource r k1 k2) = PosInfinity"
    | k where "0 \<le> k" "parseInt (countSource r k1 k2) = Num (of_int k)" by blast
  thus ?thesis
  proof cases
    case 1
    thus ?thesis by (simp add: countField_def orZero_def isNaN_def isCount_def)
  next
    case 2
    thus ?thesis by (simp add: countField_def orZero_def isNaN_def)
  next
    case 3
    thus ?thesis using isCount_of_int [of k] by (simp add: countField_def orZero_def isNaN_def isCount_def)
  qed
qed

lemma countField_shape:
  "(\<exists>k. countField r k1 k2 = Num (of_int k)) \<or> countField r k1 k2 = PosInfinity
     \<or> countField r k1 k2 = NegInfinity"
proof -
  have z: "Num 0 = Num (real_of_int 0)" by simp
  from parseInt_shape [of "countSource r k1 k2"]
  consider k where "parseInt (countSource r k1 k2) = Num (of_int k)"
    | "parseInt (countSource r k1 k2) = NaN" | "parseInt (countSource r k1 k2) = PosInfinity"
    | "parseInt (countSource r k1 k2) = NegInfinity" by blast
  thus ?thesis
  proof cases
    case 1
    have "countField r k1 k2 = Num (of_int k)"
      using 1 by (simp add: countField_def orZero_def isNaN_def)
    thus ?thesis by blast
  next
    case 2
    have "countField r k1 k2 = Num (of_int 0)"
      using 2 by (simp add: countField_def orZero_def isNaN_def)
    thus ?thesis by blast
  next
    case 3
    thus ?thesis by (simp add: countField_def orZero_def isNaN_def)
  next
    case 4
    thus ?thesis by (simp add: countField_def orZero_def isNaN_def)
  qed
qed

text \<open>
  Claim C7, as the code has it. The fatalities and injuries of a processed record are
  numbers read by \<^verbatim>\<open>parseInt\<close>: zero when both source fields are absent or empty, zero
  when the text is not numeric, and otherwise an integer or an infinity. The number is a
  non-negative integer or positive infinity unless the text (after leading white space)
  starts with a minus sign. No input raises an error: the functions are total.
\<close>

theorem counts_default_to_zero:
  "(f = processADSRecord \<or> f = processADASRecord \<longrightarrow>
      fatalities (incident (processed (f e gc sc r i))) = countField r ''Deaths'' ''Fatalities''
      \<and> injuries (incident (processed (f e gc sc r i))) = countField r ''Injuries'' ''Persons Injured'')
   \<and> (\<not> truthy (r ka) \<and> \<not> truthy (r kb) \<longrightarrow> countField r ka kb = Num 0)
   \<and> (\<not> numericText (countSource r ka kb) \<longrightarrow> countField r ka kb = Num 0)
   \<and> (take 1 (trimStart (countSource r ka kb)) \<noteq> ''-'' \<longrightarrow>
        isCount (countField r ka kb) \<or> countField r ka kb = PosInfinity)
   \<and> ((\<exists>k. countField r ka kb = Num (of_int k)) \<or> countField r ka kb = PosInfinity
        \<or> countField r ka kb = NegInfinity)"
proof (intro conjI impI)
  assume "f = processADSRecord \<or> f = processADASRecord"
  then obtain t l p where f: "f = processRecord t l p"
    unfolding processADSRecord_def processADASRecord_def by blast
  show "fatalities (incident (processed (f e gc sc r i))) = countField r ''Deaths'' ''Fatalities''"
    unfolding f by (rule processRecord_counts)
  show "injuries (incident (processed (f e gc sc r i))) = countField r ''Injuries'' ''Persons Injured''"
    unfolding f by (rule processRecord_counts)
next
  assume "\<not> truthy (r ka) \<and> \<not> truthy (r kb)"
  then show "countField r ka kb = Num 0" by (simp add: countField_absent)
next
  assume "\<not> numericText (countSource r ka kb)"
  then have "parseInt (countSource r ka kb) = NaN" by (rule parseInt_nonnumeric)
  then show "countField r ka kb = Num 0" by (simp add: countField_def orZero_def isNaN_def)
next
  assume "take 1 (trimStart (countSource r ka kb)) \<noteq> ''-''"
  then show "isCount (countField r ka kb) \<or> countField r ka kb = PosInfinity"
    by (rule countField_count)
next
  show "(\<exists>k. countField r ka kb = Num (of_int k)) \<or> countField r ka kb = PosInfinity
        \<or> countField r ka kb = NegInfinity"
    by (rule countField_shape)
qed

lemma countsRecord_sources:
  "countSource countsRecord ''Deaths'' ''Fatalities'' = ''2 (est.)''"
  "countSource countsRecord ''Injuries'' ''Persons Injured'' = ''unknown''"
  "countSource narrativeRecord ''Deaths'' ''Fatalities'' = ''0''"
  by (simp_all add: countSource_def countsRecord_def narrativeRecord_def orElse_def orDefault_def truthy_def)

theorem counts_default_to_zero_witness:
  "fatalities (incident (processed (processADASRecord (sampleEnv failingService) Map.empty Map.empty countsRecord 0))) = Num 2
   \<and> injuries (incident (processed (processADASRecord (sampleEnv failingService) Map.empty Map.empty countsRecord 0))) = Num 0
   \<and> countField narrativeRecord ''Deaths'' ''Fatalities'' = Num 0
   \<and> isCount (countField countsRecord ''Deaths'' ''Fatalities'')"
proof -
  note inst = counts_default_to_zero
     [where f = processADASRecord and r = countsRecord and ka = "''Deaths''" and kb = "''Fatalities''"
        and e = "sampleEnv failingService" and gc = Map.empty and sc = Map.empty and i = 0]
  note inst2 = counts_default_to_zero
     [where f = processADASRecord and r = narrativeRecord and ka = "''Deaths''" and kb = "''Fatalities''"]
  note inst3 = counts_default_to_zero
     [where f = processADASRecord and r = countsRecord and ka = "''Injuries''" and kb = "''Persons Injured''"]
  have f: "processADASRecord = processADSRecord \<or> processADASRecord = processADASRecord" by simp
  have two: "numberValue 2 = Num 2"
    using numberValue_small_int [of 2] by simp
  have d: "countField countsRecord ''Deaths'' ''Fatalities'' = Num 2"
    by (simp add: countField_def orZero_def isNaN_def countsRecord_sources parseInt_def signedInteger_def
          parseUnsigned_def trimStart_def isWhite_def isDigit_def charCode_def parseDigits_def digitVal_def two)
  have nn: "\<not> numericText (countSource countsRecord ''Injuries'' ''Persons Injured'')"
    by (simp add: countsRecord_sources numericText_def trimStart_def isWhite_def isDigit_def charCode_def)
  have ab: "\<not> truthy (narrativeRecord ''Deaths'') \<and> \<not> truthy (narrativeRecord ''Fatalities'')"
    by (simp add: narrativeRecord_def truthy_def)
  have sg: "take 1 (trimStart (countSource countsRecord ''Deaths'' ''Fatalities'')) \<noteq> ''-''"
    by (simp add: countsRecord_sources trimStart_def isWhite_def)
  have c1: "fatalities (incident (processed (processADASRecord (sampleEnv failingService) Map.empty Map.empty countsRecord 0))) = Num 2"
    using inst [THEN conjunct1, THEN mp, OF f, THEN conjunct1] d by simp
  have c2: "injuries (incident (processed (processADASRecord (sampleEnv failingService) Map.empty Map.empty countsRecord 0))) = Num 0"
    using inst [THEN conjunct1, THEN mp, OF f, THEN conjunct2]
          inst3 [THEN conjunct2, THEN conjunct2, THEN conjunct1, THEN mp, OF nn] by simp
  have c3: "countField narrativeRecord ''Deaths'' ''Fatalities'' = Num 0"
    using inst2 [THEN conjunct2, THEN conjunct1, THEN mp, OF ab] .
  have c4: "isCount (countField countsRecord ''Deaths'' ''Fatalities'')"
    using inst [THEN conjunct2, THEN conjunct2, THEN conjunct2, THEN conjunct1, THEN mp, OF sg] d by simp
  show ?thesis using c1 c2 c3 c4 by (intro conjI)
qed

text \<open>
  As stated (never negative) the claim fails: \<^verbatim>\<open>parseInt("-3")\<close> is -3, which is truthy,
  so a record whose \<^verbatim>\<open>Deaths\<close> field is \<^verbatim>\<open>-3\<close> has -3 fatalities.
\<close>

theorem negative_count_counterexample:
  "fatalities (incident (processed (processADSRecord (sampleEnv failingService) Map.empty Map.empty negativeDeathsRecord 0))) = Num (- 3)
   \<and> \<not> isCount (fatalities (incident (processed (processADSRecord (sampleEnv failingService) Map.empty Map.empty negativeDeathsRecord 0))))"
proof -
  have three: "numberValue (- 3) = Num (- 3)"
    using numberValue_small_int [of "- 3"] by simp
  have "countSource negativeDeathsRecord ''Deaths'' ''Fatalities'' = ''-3''"
    by (simp add: countSource_def negativeDeathsRecord_def orElse_def orDefault_def truthy_def)
  then have "countField negativeDeathsRecord ''Deaths'' ''Fatalities'' = Num (- 3)"
    by (simp add: countField_def orZero_def isNaN_def parseInt_def signedInteger_def parseUnsigned_def trimStart_def
          isWhite_def isDigit_def charCode_def parseDigits_def digitVal_def three)
  then show ?thesis
    by (simp add: processADSRecord_def processRecord_counts isCount_def)
qed

text \<open>
  Nor is the number always an integer: a run of 400 nines is read as positive infinity.
\<close>

lemma foldl_nines:
  "foldl (\<lambda>n c. 10 * n + digitVal c) a (replicate m (CHR ''9'')) = (a + 1) * 10 ^ m - 1"
proof (induction m arbitrary: a)
  case 0
  show ?case by simp
next
  case (Suc m)
  have dv: "digitVal (CHR ''9'') = 9" by (simp add: digitVal_def charCode_def)
  show ?case unfolding replicate_Suc foldl_Cons dv Suc by (simp add: algebra_simps)
qed

lemma parseInt_nines:
  "parseInt (replicate (Suc m) (CHR ''9'')) = numberValue (10 ^ Suc m - 1)"
proof -
  have d: "isDigit (CHR ''9'')" "\<not> isWhite (CHR ''9'')"
    by (simp_all add: isDigit_def isWhite_def charCode_def)
  have t: "takeWhile isDigit (CHR ''9'' # replicate m (CHR ''9'')) = CHR ''9'' # replicate m (CHR ''9'')"
    using d(1) by (simp add: takeWhile_eq_all_conv)
  have x: "take 2 (CHR ''9'' # replicate m (CHR ''9'')) \<noteq> ''0x''"
          "take 2 (CHR ''9'' # replicate m (CHR ''9'')) \<noteq> ''0X''"
    by (cases m; simp)+
  have "parseDigits (replicate (Suc m) (CHR ''9'')) = 10 ^ Suc m - 1"
    unfolding parseDigits_def foldl_nines by simp
  then have p: "parseDigits (CHR ''9'' # replicate m (CHR ''9'')) = 10 ^ Suc m - 1"
    by (simp only: replicate_Suc)
  have "parseUnsigned (CHR ''9'' # replicate m (CHR ''9'')) = Some (10 ^ Suc m - 1)"
    using x t p by (simp add: parseUnsigned_def Let_def)
  thus ?thesis
    using d(2) by (simp add: parseInt_def trimStart_def signedInteger_def)
qed

lemma huge_count_is_infinite:
  "fatalities (incident (processed (processADSRecord (sampleEnv failingService) Map.empty Map.empty hugeDeathsRecord 0)))
     = PosInfinity"
proof -
  have cs: "countSource hugeDeathsRecord ''Deaths'' ''Fatalities'' = replicate 400 (CHR ''9'')"
    by (simp add: countSource_def hugeDeathsRecord_def orElse_def orDefault_def truthy_def)
  have "replicate (Suc 399) (CHR ''9'') = replicate 400 (CHR ''9'')"
    by (simp only: eval_nat_numeral) simp
  then have pi: "parseInt (replicate 400 (CHR ''9'')) = numberValue (10 ^ Suc 399 - 1)"
    using parseInt_nines [of 399] by (simp only:)
  have ov: "numberValue (10 ^ Suc 399 - 1) = PosInfinity"
    by (rule numberValue_overflow) (simp add: pow2_def)
  have "countField hugeDeathsRecord ''Deaths'' ''Fatalities'' = PosInfinity"
    unfolding countField_def cs pi ov by (simp add: orZero_def isNaN_def)
  then show ?thesis
    by (simp add: processADSRecord_def processRecord_counts)
qed

subsection \<open>The state-center fallback\<close>

lemma STATE_COORDS_CA:
  "STATE_COORDS ''CA'' = Entry \<lparr> s_lat = 37.7749, s_lng = - 122.4194, s_city = ''San Francisco'' \<rparr>"
  by (simp add: STATE_COORDS_def STATE_COORDS_table_def)

lemma recordState_default: "\<not> truthy (r ''State'') \<Longrightarrow> recordState r = ''CA''"
  by (auto simp: recordState_def orDefault_def truthy_def split: option.splits)

lemma recordState_given: "r ''State'' = Some s \<Longrightarrow> s \<noteq> [] \<Longrightarrow> recordState r = s"
  by (simp add: recordState_def orDefault_def)

lemma getCoordinates_missing_state:
  assumes "cacheGet gc (cityKey cty st) = None" and "STATE_COORDS st = Missing"
  shows "getCoordinates gc r1 r2 cty st
           = \<lparr> lat = Num (37.7749 + (r1 - 0.5) * 0.1), lng = Num (- 122.4194 + (r2 - 0.5) * 0.1) \<rparr>"
  using assms by (simp add: getCoordinates_def STATE_COORDS_CA)

lemma getCoordinates_inherited_state:
  assumes "cacheGet gc (cityKey cty st) = None" and "STATE_COORDS st = Inherited"
  shows "getCoordinates gc r1 r2 cty st = \<lparr> lat = NaN, lng = NaN \<rparr>"
  using assms by (simp add: getCoordinates_def)

lemma state_fallback_is_california:
  assumes "parseNHTSACoordinates r = None"
    and "\<not> truthy (extractLocationFromNarrative (matchPattern e) (orDefault (r ''Narrative'') []))"
    and "cacheGet gc (cityKey (recordCity r) (recordState r)) = None"
    and "\<not> truthy (r ''State'') \<or> STATE_COORDS (recordState r) = Missing"
    and "f = processADSRecord \<or> f = processADASRecord"
  shows "location (incident (processed (f e gc sc r i)))
           = \<lparr> lat = Num (37.7749 + (random_lat e - 0.5) * 0.1),
               lng = Num (- 122.4194 + (random_lng e - 0.5) * 0.1) \<rparr>"
    and "\<not> truthy (r ''State'') \<and> \<not> truthy (r ''City'')
           \<longrightarrow> city (incident (processed (f e gc sc r i))) = ''San Francisco''"
    and "STATE_COORDS (recordState r) = Missing \<and> \<not> truthy (r ''City'')
           \<longrightarrow> city (incident (processed (f e gc sc r i))) = ''Unknown''"
proof -
  obtain t l p where f: "f = processRecord t l p"
    using assms(5) unfolding processADSRecord_def processADASRecord_def by blast
  have loc: "location (incident (processed (f e gc sc r i)))
               = getCoordinates gc (random_lat e) (random_lng e) (recordCity r) (recordState r)"
    unfolding f using assms(1,2) by (rule processRecord_no_street)
  show "location (incident (processed (f e gc sc r i)))
           = \<lparr> lat = Num (37.7749 + (random_lat e - 0.5) * 0.1),
               lng = Num (- 122.4194 + (random_lng e - 0.5) * 0.1) \<rparr>"
  proof (cases "STATE_COORDS (recordState r) = Missing")
    case True
    then show ?thesis unfolding loc using assms(3) by (intro getCoordinates_missing_state)
  next
    case False
    then have "recordState r = ''CA''" using assms(4) recordState_default by blast
    then show ?thesis
      unfolding loc using assms(3) by (simp add: getCoordinates_def STATE_COORDS_CA)
  qed
  show "\<not> truthy (r ''State'') \<and> \<not> truthy (r ''City'')
           \<longrightarrow> city (incident (processed (f e gc sc r i))) = ''San Francisco''"
    unfolding f processRecord_city
    by (auto simp: recordCity_def recordState_default stateCity_def STATE_COORDS_CA orElse_def orDefault_def)
  show "STATE_COORDS (recordState r) = Missing \<and> \<not> truthy (r ''City'')
           \<longrightarrow> city (incident (processed (f e gc sc r i))) = ''Unknown''"
    unfolding f processRecord_city
    by (auto simp: recordCity_def stateCity_def orElse_def orDefault_def truthy_def)
qed

text \<open>
  Claim C10 says a state code that is not in the fallback table resolves to the California
  entry. \<^verbatim>\<open>constructor\<close> is not in the table, but the object literal inherits a
  property of that name, which is truthy: \<^verbatim>\<open>|| STATE_COORDS['CA']\<close> is not taken, the
  latitude and longitude read from it are undefined, and the location is NaN.
\<close>

theorem inherited_state_name_gives_NaN:
  "map_of STATE_COORDS_table ''constructor'' = None
   \<and> recordState inheritedStateRecord = ''constructor''
   \<and> location (incident (processed (processADSRecord e Map.empty sc inheritedStateRecord i)))
       = \<lparr> lat = NaN, lng = NaN \<rparr>
   \<and> city (incident (processed (processADSRecord e Map.empty sc inheritedStateRecord i))) = ''Unknown''"
proof -
  have t: "map_of STATE_COORDS_table ''constructor'' = None"
    by (simp add: STATE_COORDS_table_def)
  have s: "recordState inheritedStateRecord = ''constructor''"
    by (simp add: recordState_def inheritedStateRecord_def orDefault_def)
  have inh: "STATE_COORDS ''constructor'' = Inherited"
    by (simp add: STATE_COORDS_def t objectPrototypeNames_def)
  have c: "recordCity inheritedStateRecord = ''Unknown''"
    unfolding recordCity_def s
    by (simp add: stateCity_def inh orElse_def orDefault_def truthy_def inheritedStateRecord_def)
  have nogps: "parseNHTSACoordinates inheritedStateRecord = None"
    by (simp add: parseNHTSACoordinates_def inheritedStateRecord_def truthy_def)
  have noext: "\<not> truthy (extractLocationFromNarrative (matchPattern e) (orDefault (inheritedStateRecord ''Narrative'') []))"
    by (simp add: inheritedStateRecord_def orDefault_def extractLocationFromNarrative_def truthy_def)
  have "location (incident (processed (processADSRecord e Map.empty sc inheritedStateRecord i)))
          = getCoordinates Map.empty (random_lat e) (random_lng e) ''Unknown'' ''constructor''"
    unfolding processADSRecord_def using processRecord_no_street(3) [OF nogps noext] by (simp add: s c)
  also have "\<dots> = \<lparr> lat = NaN, lng = NaN \<rparr>"
    by (rule getCoordinates_inherited_state) (simp_all add: cacheGet_def inh)
  finally show ?thesis
    using t s c by (simp add: processADSRecord_def processRecord_city)
qed

subsection \<open>The range of a location\<close>

lemma parseNHTSACoordinates_range:
  assumes "parseNHTSACoordinates r = Some c"
  shows "\<exists>a b. c = \<lparr> lat = Num a, lng = Num b \<rparr> \<and> 18 \<le> a \<and> a \<le> 72 \<and> - 180 \<le> b \<and> b \<le> - 65"
proof -
  obtain x y where x: "r ''Latitude'' = Some x" and y: "r ''Longitude'' = Some y"
    using assms by (auto simp: parseNHTSACoordinates_def Let_def truthy_def split: if_splits option.splits)
  show ?thesis
    using assms x y
    by (cases "parseFloat (trim x)"; cases "parseFloat (trim y)")
       (auto simp: parseNHTSACoordinates_def Let_def truthy_def isNaN_def numLess_def numGreater_def
             split: if_splits)
qed

lemma STATE_COORDS_table_range:
  "map_of STATE_COORDS_table st = Some en \<Longrightarrow>
   18 \<le> s_lat en \<and> s_lat en \<le> 62 \<and> - 158 \<le> s_lng en \<and> s_lng en \<le> - 66"
  by (drule map_of_SomeD) (auto simp: STATE_COORDS_table_def)

lemma STATE_COORDS_Entry_range:
  "STATE_COORDS st = Entry en \<Longrightarrow>
   18 \<le> s_lat en \<and> s_lat en \<le> 62 \<and> - 158 \<le> s_lng en \<and> s_lng en \<le> - 66"
  using STATE_COORDS_table_range [of st en]
  by (auto simp: STATE_COORDS_def split: option.splits if_splits)

lemma getCoordinates_range:
  assumes r1: "0 \<le> r1" "r1 < 1" and r2: "0 \<le> r2" "r2 < 1"
    and gc: "\<forall>k g. gc k = Some (Some g) \<longrightarrow>
               - 89.98 \<le> g_lat g \<and> g_lat g \<le> 89.98 \<and> - 179.98 \<le> g_lng g \<and> g_lng g \<le> 179.98"
    and st: "STATE_COORDS st \<noteq> Inherited"
  shows "validPoint (getCoordinates gc r1 r2 cty st)"
proof (cases "cacheGet gc (cityKey cty st)")
  case (Some g)
  then have "gc (cityKey cty st) = Some (Some g)"
    by (auto simp: cacheGet_def split: option.splits)
  then have b: "- 89.98 \<le> g_lat g" "g_lat g \<le> 89.98" "- 179.98 \<le> g_lng g" "g_lng g \<le> 179.98"
    using gc by blast+
  have "- 90 \<le> g_lat g + (r1 - 0.5) * 0.04" "g_lat g + (r1 - 0.5) * 0.04 \<le> 90"
    "- 180 \<le> g_lng g + (r2 - 0.5) * 0.04" "g_lng g + (r2 - 0.5) * 0.04 \<le> 180"
    using b r1 r2 by (simp_all add: field_simps)
  then show ?thesis
    using Some by (simp add: getCoordinates_def validPoint_def)
next
  case None
  obtain en where en: "(case STATE_COORDS st of Missing \<Rightarrow> STATE_COORDS ''CA'' | found \<Rightarrow> found) = Entry en"
    using st by (cases "STATE_COORDS st") (simp_all add: STATE_COORDS_CA)
  then have "STATE_COORDS st = Entry en \<or> STATE_COORDS ''CA'' = Entry en"
    by (cases "STATE_COORDS st") simp_all
  then have b: "18 \<le> s_lat en" "s_lat en \<le> 62" "- 158 \<le> s_lng en" "s_lng en \<le> - 66"
    using STATE_COORDS_Entry_range by blast+
  have "- 90 \<le> s_lat en + (r1 - 0.5) * 0.1" "s_lat en + (r1 - 0.5) * 0.1 \<le> 90"
    "- 180 \<le> s_lng en + (r2 - 0.5) * 0.1" "s_lng en + (r2 - 0.5) * 0.1 \<le> 180"
    using b r1 r2 by (simp_all add: field_simps)
  then show ?thesis
    using None en by (simp add: getCoordinates_def validPoint_def)
qed

lemma geocodeStreetAddress_range:
  assumes res: "fst (geocodeStreetAddress e gc sc a cty st) = Some g"
    and svc: "\<forall>q ft fts. streetService e q = Json (ft # fts) \<longrightarrow>
               - 90 \<le> center_lat ft \<and> center_lat ft \<le> 90 \<and> - 180 \<le> center_lng ft \<and> center_lng ft \<le> 180"
    and sc: "\<forall>k g. sc k = Some (Some g) \<longrightarrow>
               - 90 \<le> g_lat g \<and> g_lat g \<le> 90 \<and> - 180 \<le> g_lng g \<and> g_lng g \<le> 180"
  shows "- 90 \<le> g_lat g \<and> g_lat g \<le> 90 \<and> - 180 \<le> g_lng g \<and> g_lng g \<le> 180"
proof (cases "sc (streetKey a cty st)")
  case (Some v)
  then have "sc (streetKey a cty st) = Some (Some g)"
    using res by (simp add: geocodeStreetAddress_def Let_def cacheGet_def)
  then show ?thesis using sc by blast
next
  case None
  let ?q = "a @ '', '' @ cty @ '', '' @ st @ '', USA''"
  obtain ft fts where ft: "streetService e ?q = Json (ft # fts)"
    and g: "g = \<lparr> g_lat = center_lat ft, g_lng = center_lng ft, displayName = place_name ft \<rparr>"
    using res None
    by (auto simp: geocodeStreetAddress_def Let_def split: fetch_result.splits list.splits option.splits if_splits)
  from svc ft have "- 90 \<le> center_lat ft \<and> center_lat ft \<le> 90 \<and> - 180 \<le> center_lng ft \<and> center_lng ft \<le> 180"
    by blast
  then show ?thesis by (simp add: g)
qed

text \<open>
  Claim C2, as the code has it. The location of a processed record is always there, and
  its latitude and longitude are in range when the geocoding service's own coordinates
  are: each street result, fresh or cached, within [-90, 90] and [-180, 180], and each
  cached city center within [-89.98, 89.98] and [-179.98, 179.98] (the city-level jitter
  adds up to 0.02 degrees). Real GPS coordinates and the state-center fallback are in
  range by themselves. A state code that is a name the fallback table inherits is left
  out.
\<close>

theorem location_in_range:
  assumes "0 \<le> random_lat e" and "random_lat e < 1" and "0 \<le> random_lng e" and "random_lng e < 1"
    and "\<forall>q ft fts. streetService e q = Json (ft # fts) \<longrightarrow>
           - 90 \<le> center_lat ft \<and> center_lat ft \<le> 90 \<and> - 180 \<le> center_lng ft \<and> center_lng ft \<le> 180"
    and "\<forall>k g. sc k = Some (Some g) \<longrightarrow>
           - 90 \<le> g_lat g \<and> g_lat g \<le> 90 \<and> - 180 \<le> g_lng g \<and> g_lng g \<le> 180"
    and "\<forall>k g. gc k = Some (Some g) \<longrightarrow>
           - 89.98 \<le> g_lat g \<and> g_lat g \<le> 89.98 \<and> - 179.98 \<le> g_lng g \<and> g_lng g \<le> 179.98"
    and "recordState r \<notin> set objectPrototypeNames"
    and "f = processADSRecord \<or> f = processADASRecord"
  shows "validPoint (location (incident (processed (f e gc sc r i))))"
proof -
  obtain t l p where f: "f = processRecord t l p"
    using assms(9) unfolding processADSRecord_def processADASRecord_def by blast
  have ninh: "STATE_COORDS (recordState r) \<noteq> Inherited"
    using assms(8) by (auto simp: STATE_COORDS_def split: option.splits)
  have city_tier: "validPoint (getCoordinates gc (random_lat e) (random_lng e) (recordCity r) (recordState r))"
    using assms(1-4,7) ninh by (rule getCoordinates_range)
  show ?thesis
  proof (cases "parseNHTSACoordinates r")
    case (Some c)
    then obtain a b where "c = \<lparr> lat = Num a, lng = Num b \<rparr>"
      and "18 \<le> a \<and> a \<le> 72 \<and> - 180 \<le> b \<and> b \<le> - 65"
      using parseNHTSACoordinates_range by blast
    then show ?thesis
      unfolding f processRecord_real(1) [OF Some] by (simp add: validPoint_def)
  next
    case None
    show ?thesis
    proof (cases "truthy (extractLocationFromNarrative (matchPattern e) (orDefault (r ''Narrative'') []))")
      case False
      show ?thesis
        unfolding f processRecord_no_street(3) [OF None False] by (rule city_tier)
    next
      case True
      then obtain a where ext: "extractLocationFromNarrative (matchPattern e) (orDefault (r ''Narrative'') []) = Some a"
        and ne: "a \<noteq> []"
        by (auto simp: truthy_def split: option.splits)
      note loc = processRecord_street(4) [where gc = gc and sc = sc and i = i and t = t and l = l and p = p,
                                          OF None ext ne]
      show ?thesis
      proof (cases "fst (geocodeStreetAddress e gc sc a (recordCity r) (recordState r))")
        case None
        then show ?thesis unfolding f loc using city_tier by simp
      next
        case (Some g)
        then have "- 90 \<le> g_lat g \<and> g_lat g \<le> 90 \<and> - 180 \<le> g_lng g \<and> g_lng g \<le> 180"
          using assms(5,6) by (rule geocodeStreetAddress_range)
        then show ?thesis unfolding f loc using Some by (simp add: validPoint_def)
      qed
    qed
  qed
qed

theorem location_in_range_witness:
  "validPoint (location (incident (processed
      (processADSRecord (sampleEnv austinStreetService) austinCache Map.empty narrativeRecord 0))))
   \<and> validPoint (location (incident (processed
      (processADASRecord (sampleEnv austinStreetService) Map.empty Map.empty narrativeRecord 0))))"
proof -
  have rnd: "0 \<le> random_lat (sampleEnv austinStreetService)" "random_lat (sampleEnv austinStreetService) < 1"
    "0 \<le> random_lng (sampleEnv austinStreetService)" "random_lng (sampleEnv austinStreetService) < 1"
    by (simp_all add: sampleEnv_def)
  have svc: "\<forall>q ft fts. streetService (sampleEnv austinStreetService) q = Json (ft # fts) \<longrightarrow>
           - 90 \<le> center_lat ft \<and> center_lat ft \<le> 90 \<and> - 180 \<le> center_lng ft \<and> center_lng ft \<le> 180"
    by (auto simp: sampleEnv_def austinStreetService_def)
  have sc: "\<forall>k g. (Map.empty :: geocache) k = Some (Some g) \<longrightarrow>
           - 90 \<le> g_lat g \<and> g_lat g \<le> 90 \<and> - 180 \<le> g_lng g \<and> g_lng g \<le> 180"
    by simp
  have gc0: "\<forall>k g. (Map.empty :: geocache) k = Some (Some g) \<longrightarrow>
           - 89.98 \<le> g_lat g \<and> g_lat g \<le> 89.98 \<and> - 179.98 \<le> g_lng g \<and> g_lng g \<le> 179.98"
    by simp
  have gc1: "\<forall>k g. austinCache k = Some (Some g) \<longrightarrow>
           - 89.98 \<le> g_lat g \<and> g_lat g \<le> 89.98 \<and> - 179.98 \<le> g_lng g \<and> g_lng g \<le> 179.98"
    by (auto simp: austinCache_def split: if_splits)
  have st: "recordState narrativeRecord \<notin> set objectPrototypeNames"
    by (simp add: narrativeRecord_facts objectPrototypeNames_def)
  have f1: "processADSRecord = processADSRecord \<or> processADSRecord = processADASRecord" by simp
  have f2: "processADASRecord = processADSRecord \<or> processADASRecord = processADASRecord" by simp
  show ?thesis
    using location_in_range [where f = processADSRecord and i = 0, OF rnd svc sc gc1 st f1]
          location_in_range [where f = processADASRecord and i = 0, OF rnd svc sc gc0 st f2]
    by (intro conjI)
qed

text \<open>
  As stated (whatever the service returns) the claim fails: nothing checks the range of a
  street result, so a service that answers with latitude 95 gives a location at
  latitude 95.
\<close>

theorem location_out_of_range_counterexample:
  "location (incident (processed
      (processADSRecord (sampleEnv farNorthService) Map.empty Map.empty narrativeRecord 0)))
     = \<lparr> lat = Num 95, lng = Num (- 97) \<rparr>
   \<and> \<not> validPoint (location (incident (processed
      (processADSRecord (sampleEnv farNorthService) Map.empty Map.empty narrativeRecord 0))))"
proof -
  have ext: "extractLocationFromNarrative (matchPattern (sampleEnv farNorthService))
               (orDefault (narrativeRecord ''Narrative'') []) = Some ''Market Street''"
    by (simp add: narrativeRecord_facts sample_extraction)
  have g: "fst (geocodeStreetAddress (sampleEnv farNorthService) Map.empty Map.empty ''Market Street''
                 (recordCity narrativeRecord) (recordState narrativeRecord))
             = Some \<lparr> g_lat = 95, g_lng = - 97, displayName = ''Market Street'' \<rparr>"
    by (simp add: geocodeStreetAddress_def Let_def sampleEnv_def farNorthService_def cacheGet_def)
  have "location (incident (processed
      (processADSRecord (sampleEnv farNorthService) Map.empty Map.empty narrativeRecord 0)))
     = \<lparr> lat = Num 95, lng = Num (- 97) \<rparr>"
    unfolding processADSRecord_def
    using processRecord_street(4) [OF narrativeRecord_facts(3) ext, where gc = Map.empty and sc = Map.empty]
    by (simp add: g)
  then show ?thesis by (simp add: validPoint_def)
qed

section \<open>Seeding runs\<close>

subsection \<open>The store\<close>

lemma storeKeys_append: "storeKeys (a @ b) = storeKeys a @ storeKeys b"
  by (simp add: storeKeys_def)

lemma storeKeys_mem: "(Some k \<in> set (map rowKey st)) = (k \<in> set (storeKeys st))"
  by (induction st) (auto simp: storeKeys_def split: option.splits)

lemma storeKeys_replace:
  "storeKeys (map (\<lambda>row. if rowKey row = Some (external_id inc) then Ingested inc else row) st) = storeKeys st"
  by (induction st) (auto simp: storeKeys_def rowKey_def split: stored.splits)

lemma storeKeys_upsertRow:
  "storeKeys (upsertRow st inc)
     = (if external_id inc \<in> set (storeKeys st) then storeKeys st else storeKeys st @ [external_id inc])"
  by (simp add: upsertRow_def storeKeys_mem storeKeys_replace storeKeys_append del: set_map)
     (simp add: storeKeys_def rowKey_def)

lemma unkeyed_upsertRow: "unkeyed (upsertRow st inc) = unkeyed st"
proof -
  have "unkeyed (map (\<lambda>row. if rowKey row = Some (external_id inc) then Ingested inc else row) st) = unkeyed st"
    by (induction st) (auto simp: unkeyed_def rowKey_def split: stored.splits)
  then show ?thesis
    by (simp add: upsertRow_def) (simp add: unkeyed_def rowKey_def)
qed

lemma length_store: "length st = length (storeKeys st) + length (unkeyed st)"
  by (induction st) (auto simp: storeKeys_def unkeyed_def split: option.splits)

lemma upsertBatch_keys:
  "set (storeKeys (upsertBatch st batch)) = set (storeKeys st) \<union> set (map external_id batch)"
  unfolding upsertBatch_def
  by (induction batch arbitrary: st) (auto simp: storeKeys_upsertRow)

lemma upsertBatch_unique: "uniqueKeys st \<Longrightarrow> uniqueKeys (upsertBatch st batch)"
  unfolding upsertBatch_def uniqueKeys_def
  by (induction batch arbitrary: st) (auto simp: storeKeys_upsertRow)

lemma upsertBatch_unkeyed: "unkeyed (upsertBatch st batch) = unkeyed st"
  unfolding upsertBatch_def
  by (induction batch arbitrary: st) (auto simp: unkeyed_upsertRow)

lemma upsertLoop_keys:
  "set (storeKeys (fst (upsertLoop answer incs i (st, c))))
     = set (storeKeys st) \<union> writtenKeys answer (map external_id incs) i"
proof (induction answer incs i "(st, c)" arbitrary: st c rule: upsertLoop.induct)
  case (1 answer incidents i st c)
  show ?case
  proof (cases "i < length incidents")
    case False
    then show ?thesis by (simp add: upsertLoop.simps writtenKeys.simps)
  next
    case True
    show ?thesis
    proof (cases "answer i")
      case UpsertError
      then show ?thesis
        using True "1.hyps"(1) [OF True refl UpsertError]
        by (simp add: upsertLoop.simps [of answer incidents i] writtenKeys.simps [of answer _ i])
    next
      case (Returned n)
      then show ?thesis
        using True "1.hyps"(2) [OF True refl Returned]
        by (simp add: upsertLoop.simps [of answer incidents i] writtenKeys.simps [of answer _ i]
              upsertBatch_keys take_map drop_map Un_assoc)
    qed
  qed
qed

lemma upsertLoop_unique:
  "uniqueKeys st \<Longrightarrow> uniqueKeys (fst (upsertLoop answer incs i (st, c)))"
proof (induction answer incs i "(st, c)" arbitrary: st c rule: upsertLoop.induct)
  case (1 answer incidents i st c)
  show ?case
  proof (cases "i < length incidents")
    case False
    then show ?thesis using "1.prems" by (simp add: upsertLoop.simps)
  next
    case True
    show ?thesis
    proof (cases "answer i")
      case UpsertError
      then show ?thesis
        using True "1.hyps"(1) [OF True refl UpsertError "1.prems"]
        by (simp add: upsertLoop.simps [of answer incidents i])
    next
      case (Returned n)
      then show ?thesis
        using True "1.hyps"(2) [OF True refl Returned upsertBatch_unique [OF "1.prems"]]
        by (simp add: upsertLoop.simps [of answer incidents i])
    qed
  qed
qed

lemma upsertLoop_unkeyed:
  "unkeyed (fst (upsertLoop answer incs i (st, c))) = unkeyed st"
proof (induction answer incs i "(st, c)" arbitrary: st c rule: upsertLoop.induct)
  case (1 answer incidents i st c)
  show ?case
  proof (cases "i < length incidents")
    case False
    then show ?thesis by (simp add: upsertLoop.simps)
  next
    case True
    show ?thesis
    proof (cases "answer i")
      case UpsertError
      then show ?thesis
        using True "1.hyps"(1) [OF True refl UpsertError]
        by (simp add: upsertLoop.simps [of answer incidents i])
    next
      case (Returned n)
      then show ?thesis
        using True "1.hyps"(2) [OF True refl Returned]
        by (simp add: upsertLoop.simps [of answer incidents i] upsertBatch_unkeyed)
    qed
  qed
qed

lemma writtenKeys_mono:
  "\<forall>j. a1 j = UpsertError \<longrightarrow> a2 j = UpsertError \<Longrightarrow> writtenKeys a2 ids i \<subseteq> writtenKeys a1 ids i"
proof (induction a1 ids i rule: writtenKeys.induct)
  case (1 answer ids i)
  show ?case
  proof (cases "i < length ids")
    case False
    then show ?thesis by (simp add: writtenKeys.simps)
  next
    case True
    show ?thesis
    proof (cases "answer i")
      case UpsertError
      then have "a2 i = UpsertError" using "1.prems" by blast
      then show ?thesis
        using True UpsertError "1.IH"(1) [OF True UpsertError "1.prems"]
        by (simp add: writtenKeys.simps [of _ ids i])
    next
      case (Returned n)
      then show ?thesis
        using True "1.IH"(2) [OF True Returned "1.prems"]
        by (cases "a2 i") (auto simp: writtenKeys.simps [of _ ids i])
    qed
  qed
qed

lemma upsertLoop_counters:
  "totalInserted (snd (upsertLoop answer incs i (st, c))) + totalSkipped (snd (upsertLoop answer incs i (st, c)))
     + totalErrors (snd (upsertLoop answer incs i (st, c)))
   = totalInserted c + totalSkipped c + totalErrors c + int (length incs - i)"
proof (induction answer incs i "(st, c)" arbitrary: st c rule: upsertLoop.induct)
  case (1 answer incidents i st c)
  show ?case
  proof (cases "i < length incidents")
    case False
    then show ?thesis by (simp add: upsertLoop.simps)
  next
    case True
    have len: "int (length incidents - (i + 50)) + int (min (length incidents - i) 50) = int (length incidents - i)"
      by simp
    show ?thesis
    proof (cases "answer i")
      case UpsertError
      then show ?thesis
        using True len "1.hyps"(1) [OF True refl UpsertError]
        by (simp add: upsertLoop.simps [of answer incidents i])
    next
      case (Returned n)
      then show ?thesis
        using True len "1.hyps"(2) [OF True refl Returned]
        by (simp add: upsertLoop.simps [of answer incidents i])
    qed
  qed
qed

subsection \<open>The processing loop\<close>

lemma processBatch_ids:
  assumes "i + length batch \<le> length records" and "batch = take (length batch) (drop i records)"
  shows "map (\<lambda>q. external_id (incident (processed q))) (processBatch (processRecord t l p) envs gc sc batch i)
           = map (\<lambda>k. externalIdOf p t (records ! k) k) [i..<i + length batch]"
proof (rule nth_equalityI)
  show "length (map (\<lambda>q. external_id (incident (processed q))) (processBatch (processRecord t l p) envs gc sc batch i))
          = length (map (\<lambda>k. externalIdOf p t (records ! k) k) [i..<i + length batch])"
    by (simp add: processBatch_def)
next
  fix j
  assume "j < length (map (\<lambda>q. external_id (incident (processed q))) (processBatch (processRecord t l p) envs gc sc batch i))"
  then have j: "j < length batch" by (simp add: processBatch_def)
  have "batch ! j = take (length batch) (drop i records) ! j" using assms(2) by simp
  also have "\<dots> = records ! (i + j)" using j assms(1) by simp
  finally have b: "batch ! j = records ! (i + j)" .
  show "map (\<lambda>q. external_id (incident (processed q))) (processBatch (processRecord t l p) envs gc sc batch i) ! j
          = map (\<lambda>k. externalIdOf p t (records ! k) k) [i..<i + length batch] ! j"
    using j b by (simp add: processBatch_def processRecord_ids externalIdOf_def)
qed

lemma processLoop_ids:
  "map (\<lambda>q. external_id (incident q)) (fst (processLoop (processRecord t l p) envs gc records i (acc, sc)))
     = map (\<lambda>q. external_id (incident q)) acc @ map (\<lambda>k. externalIdOf p t (records ! k) k) [i..<length records]"
proof (induction "processRecord t l p" envs gc records i "(acc, sc)" arbitrary: acc sc rule: processLoop.induct)
  case (1 envs gc records i acc sc)
  show ?case
  proof (cases "i < length records")
    case False
    then show ?thesis by (simp add: processLoop.simps)
  next
    case True
    define batch where "batch = take 20 (drop i records)"
    define m where "m = length batch"
    define h where "h = (\<lambda>k. externalIdOf p t (records ! k) k)"
    define results where "results = processBatch (processRecord t l p) envs gc sc batch i"
    have b1: "i + m \<le> length records" using True by (simp add: m_def batch_def)
    have b2: "batch = take m (drop i records)"
      unfolding m_def batch_def
      by (cases "20 \<le> length (drop i records)") (simp_all add: min_def)
    have ids: "map (\<lambda>q. external_id (incident (processed q))) results = map h [i..<i + m]"
      unfolding results_def h_def m_def using b1 b2 unfolding m_def by (rule processBatch_ids)
    have split: "[i..<length records] = [i..<i + m] @ [i + m..<length records]"
      using b1 upt_add_eq_append [of i "i + m" "length records - (i + m)"] by simp
    have rest: "[i + 20..<length records] = [i + m..<length records]"
      unfolding m_def batch_def
      by (cases "20 \<le> length records - i") (simp_all add: min_def)
    have "map (\<lambda>q. external_id (incident q)) (fst (processLoop (processRecord t l p) envs gc records i (acc, sc)))
            = map (\<lambda>q. external_id (incident q))
                (fst (processLoop (processRecord t l p) envs gc records (i + 20)
                        (acc @ map processed results, foldl applyWrite sc (map cacheWrite results))))"
      using True
      by (simp add: processLoop.simps [of _ envs gc records i] Let_def results_def batch_def)
    also have "\<dots> = map (\<lambda>q. external_id (incident q)) (acc @ map processed results)
                      @ map h [i + 20..<length records]"
      unfolding h_def results_def batch_def by (rule "1.hyps" [OF True refl refl])
    also have "\<dots> = map (\<lambda>q. external_id (incident q)) acc @ map h [i..<i + m] @ map h [i + m..<length records]"
      using ids by (simp add: o_def rest)
    also have "\<dots> = map (\<lambda>q. external_id (incident q)) acc @ map h [i..<length records]"
      by (simp only: split map_append)
    finally show ?thesis unfolding h_def .
  qed
qed

lemma processLoop_length:
  "length (fst (processLoop (processRecord t l p) envs gc records i ([], sc))) = length records - i"
  using arg_cong [OF processLoop_ids [of t l p envs gc records i "[]" sc], of length] by simp

lemma processBatch_nth:
  assumes "j < length batch"
  shows "processBatch f envs gc sc batch i ! j = f (envs (i + j)) gc sc (batch ! j) (i + j)"
  using assms by (simp add: processBatch_def)

lemma processBatch_length: "length (processBatch f envs gc sc batch i) = length batch"
  by (simp add: processBatch_def)

lemma processLoop_nth:
  "length (fst (processLoop f envs gc records i (acc, sc))) = length acc + (length records - i)
   \<and> (\<forall>k < length acc. fst (processLoop f envs gc records i (acc, sc)) ! k = acc ! k)
   \<and> (\<forall>k. i \<le> k \<and> k < length records \<longrightarrow>
         (\<exists>sc'. fst (processLoop f envs gc records i (acc, sc)) ! (length acc + (k - i))
                  = processed (f (envs k) gc sc' (records ! k) k)))"
proof (induction f envs gc records i "(acc, sc)" arbitrary: acc sc rule: processLoop.induct)
  case (1 f envs gc records i acc sc)
  show ?case
  proof (cases "i < length records")
    case False
    then show ?thesis by (auto simp: processLoop.simps)
  next
    case True
    define batch where "batch = take 20 (drop i records)"
    define m where "m = length batch"
    define results where "results = processBatch f envs gc sc batch i"
    define acc' where "acc' = acc @ map processed results"
    define sc1 where "sc1 = foldl applyWrite sc (map cacheWrite results)"
    define L where "L = fst (processLoop f envs gc records (i + 20) (acc', sc1))"
    have step: "fst (processLoop f envs gc records i (acc, sc)) = L"
      using True
      by (simp add: processLoop.simps [of _ envs gc records i] Let_def results_def batch_def acc'_def sc1_def L_def)
    have m: "m = min 20 (length records - i)" by (simp add: m_def batch_def)
    have la: "length acc' = length acc + m"
      by (simp add: acc'_def results_def processBatch_length m_def)
    have ih: "length L = length acc' + (length records - (i + 20))
              \<and> (\<forall>k < length acc'. L ! k = acc' ! k)
              \<and> (\<forall>k. i + 20 \<le> k \<and> k < length records \<longrightarrow>
                    (\<exists>sc'. L ! (length acc' + (k - (i + 20)))
                             = processed (f (envs k) gc sc' (records ! k) k)))"
      unfolding L_def acc'_def sc1_def results_def batch_def
      by (rule "1.hyps" [OF True refl refl])
    have bn: "batch ! j = records ! (i + j)" if "j < m" for j
      using that True by (simp add: batch_def m)
    have c1: "length L = length acc + (length records - i)"
      using ih la m True by auto
    have c2: "\<forall>k < length acc. L ! k = acc ! k"
    proof (intro allI impI)
      fix k assume k: "k < length acc"
      hence "L ! k = acc' ! k" using ih la by simp
      thus "L ! k = acc ! k" using k by (simp add: acc'_def nth_append)
    qed
    have c3: "\<forall>k. i \<le> k \<and> k < length records \<longrightarrow>
                (\<exists>sc'. L ! (length acc + (k - i)) = processed (f (envs k) gc sc' (records ! k) k))"
    proof (intro allI impI)
      fix k assume k: "i \<le> k \<and> k < length records"
      show "\<exists>sc'. L ! (length acc + (k - i)) = processed (f (envs k) gc sc' (records ! k) k)"
      proof (cases "k < i + m")
        case True
        hence j: "k - i < m" using k by arith
        have "L ! (length acc + (k - i)) = acc' ! (length acc + (k - i))"
          using ih la j by simp
        also have "\<dots> = map processed results ! (k - i)"
          by (simp add: acc'_def nth_append)
        also have "\<dots> = processed (results ! (k - i))"
          using j by (simp add: results_def processBatch_length m_def)
        also have "\<dots> = processed (f (envs k) gc sc (records ! k) k)"
          using j k bn [OF j] unfolding results_def
          by (simp add: processBatch_nth m_def)
        finally show ?thesis by blast
      next
        case False
        hence m20: "m = 20" using k m by arith
        hence k20: "i + 20 \<le> k \<and> k < length records" using False k by arith
        from ih k20 obtain sc' where
          "L ! (length acc' + (k - (i + 20))) = processed (f (envs k) gc sc' (records ! k) k)"
          by blast
        moreover have "length acc' + (k - (i + 20)) = length acc + (k - i)"
          using la m20 k20 by arith
        ultimately show ?thesis by auto
      qed
    qed
    show ?thesis unfolding step using c1 c2 c3 by (intro conjI)
  qed
qed

subsection \<open>One run\<close>

lemma seedRecords_decompose:
  obtains adsInc adasInc st1 c1 where
    "map external_id adsInc = recordIds ''nhtsa-ads-'' ''ADS-'' ads"
    and "map external_id adasInc = recordIds ''nhtsa-adas-'' ''ADAS-'' (take 500 adas)"
    and "upsertLoop (adsUpsert w) adsInc 0 (st, noCounts) = (st1, c1)"
    and "store (seedRecords w ads adas st) = fst (upsertLoop (adasUpsert w) adasInc 0 (st1, c1))"
    and "written (seedRecords w ads adas st) = snd (upsertLoop (adasUpsert w) adasInc 0 (st1, c1))"
proof -
  define gc where "gc = preGeocodeAllCities (cityService w) (ads @ take 500 adas) Map.empty"
  define adsP where "adsP = processLoop processADSRecord (adsEnv w) gc ads 0 ([], Map.empty)"
  define adasP where "adasP = processLoop processADASRecord (adasEnv w) gc (take 500 adas) 0 ([], snd adsP)"
  define up1 where "up1 = upsertLoop (adsUpsert w) (map incident (fst adsP)) 0 (st, noCounts)"
  have i1: "map external_id (map incident (fst adsP)) = recordIds ''nhtsa-ads-'' ''ADS-'' ads"
    using processLoop_ids [of "''ADS-''" "''ADS''" "''nhtsa-ads-''" "adsEnv w" gc ads 0 "[]" Map.empty]
    by (simp add: adsP_def processADSRecord_def recordIds_def o_def)
  have i2: "map external_id (map incident (fst adasP)) = recordIds ''nhtsa-adas-'' ''ADAS-'' (take 500 adas)"
    using processLoop_ids [of "''ADAS-''" "''ADAS (Level 2)''" "''nhtsa-adas-''" "adasEnv w" gc "take 500 adas" 0 "[]" "snd adsP"]
    by (simp add: adasP_def processADASRecord_def recordIds_def o_def)
  have u: "upsertLoop (adsUpsert w) (map incident (fst adsP)) 0 (st, noCounts) = (fst up1, snd up1)"
    by (simp add: up1_def)
  have s: "store (seedRecords w ads adas st)
             = fst (upsertLoop (adasUpsert w) (map incident (fst adasP)) 0 (fst up1, snd up1))"
    by (simp add: seedRecords_def Let_def gc_def adsP_def adasP_def up1_def noCounts_def)
  have c: "written (seedRecords w ads adas st)
             = snd (upsertLoop (adasUpsert w) (map incident (fst adasP)) 0 (fst up1, snd up1))"
    by (simp add: seedRecords_def Let_def gc_def adsP_def adasP_def up1_def noCounts_def)
  show thesis using that [OF i1 i2 u s c] .
qed

lemma seedRecords_keys:
  "set (storeKeys (store (seedRecords w ads adas st)))
     = set (storeKeys st)
       \<union> writtenKeys (adsUpsert w) (recordIds ''nhtsa-ads-'' ''ADS-'' ads) 0
       \<union> writtenKeys (adasUpsert w) (recordIds ''nhtsa-adas-'' ''ADAS-'' (take 500 adas)) 0"
proof -
  obtain adsInc adasInc st1 c1 where
    i1: "map external_id adsInc = recordIds ''nhtsa-ads-'' ''ADS-'' ads"
    and i2: "map external_id adasInc = recordIds ''nhtsa-adas-'' ''ADAS-'' (take 500 adas)"
    and u: "upsertLoop (adsUpsert w) adsInc 0 (st, noCounts) = (st1, c1)"
    and s: "store (seedRecords w ads adas st) = fst (upsertLoop (adasUpsert w) adasInc 0 (st1, c1))"
    by (rule seedRecords_decompose)
  have "set (storeKeys st1) = set (storeKeys st) \<union> writtenKeys (adsUpsert w) (map external_id adsInc) 0"
    using upsertLoop_keys [of "adsUpsert w" adsInc 0 st noCounts] by (simp add: u)
  then show ?thesis
    unfolding s upsertLoop_keys by (simp add: i1 i2)
qed

lemma seedRecords_unique:
  "uniqueKeys st \<Longrightarrow> uniqueKeys (store (seedRecords w ads adas st))"
proof -
  assume a: "uniqueKeys st"
  obtain adsInc adasInc st1 c1 where
    u: "upsertLoop (adsUpsert w) adsInc 0 (st, noCounts) = (st1, c1)"
    and s: "store (seedRecords w ads adas st) = fst (upsertLoop (adasUpsert w) adasInc 0 (st1, c1))"
    by (rule seedRecords_decompose)
  have "uniqueKeys st1"
    using upsertLoop_unique [OF a, of "adsUpsert w" adsInc 0 noCounts] by (simp add: u)
  then show ?thesis unfolding s by (rule upsertLoop_unique)
qed

lemma seedRecords_unkeyed:
  "unkeyed (store (seedRecords w ads adas st)) = unkeyed st"
proof -
  obtain adsInc adasInc st1 c1 where
    u: "upsertLoop (adsUpsert w) adsInc 0 (st, noCounts) = (st1, c1)"
    and s: "store (seedRecords w ads adas st) = fst (upsertLoop (adasUpsert w) adasInc 0 (st1, c1))"
    by (rule seedRecords_decompose)
  have "unkeyed st1 = unkeyed st"
    using upsertLoop_unkeyed [of "adsUpsert w" adsInc 0 st noCounts] by (simp add: u)
  then show ?thesis unfolding s upsertLoop_unkeyed by simp
qed

lemma seedRecords_written:
  "totalInserted (written (seedRecords w ads adas st)) + totalSkipped (written (seedRecords w ads adas st))
     + totalErrors (written (seedRecords w ads adas st))
   = int (length ads) + int (min 500 (length adas))"
proof -
  obtain adsInc adasInc st1 c1 where
    i1: "map external_id adsInc = recordIds ''nhtsa-ads-'' ''ADS-'' ads"
    and i2: "map external_id adasInc = recordIds ''nhtsa-adas-'' ''ADAS-'' (take 500 adas)"
    and u: "upsertLoop (adsUpsert w) adsInc 0 (st, noCounts) = (st1, c1)"
    and c: "written (seedRecords w ads adas st) = snd (upsertLoop (adasUpsert w) adasInc 0 (st1, c1))"
    by (rule seedRecords_decompose)
  have l1: "length adsInc = length ads"
    using arg_cong [OF i1, of length] by (simp add: recordIds_def)
  have l2: "length adasInc = min 500 (length adas)"
    using arg_cong [OF i2, of length] by (simp add: recordIds_def min.commute)
  have "totalInserted c1 + totalSkipped c1 + totalErrors c1 = int (length ads)"
    using upsertLoop_counters [of "adsUpsert w" adsInc 0 st noCounts] unfolding u
    by (simp add: l1 noCounts_def)
  then show ?thesis
    unfolding c upsertLoop_counters by (simp add: l2)
qed

lemma seedRecords_coords:
  "realCoordsCount (seedRecords w ads adas st) + streetCoordsCount (seedRecords w ads adas st)
     + fallbackCoordsCount (seedRecords w ads adas st)
   = int (length ads) + int (min 500 (length adas))"
  by (simp add: seedRecords_def Let_def processADSRecord_def processADASRecord_def processLoop_length
        min.commute)

lemma unique_length:
  "uniqueKeys a \<Longrightarrow> uniqueKeys b \<Longrightarrow> set (storeKeys a) = set (storeKeys b) \<Longrightarrow> unkeyed a = unkeyed b
   \<Longrightarrow> length a = length b"
proof -
  assume u: "uniqueKeys a" "uniqueKeys b" and s: "set (storeKeys a) = set (storeKeys b)"
    and k: "unkeyed a = unkeyed b"
  have "length (storeKeys a) = card (set (storeKeys a))"
    using u(1) by (simp add: uniqueKeys_def distinct_card)
  also have "\<dots> = card (set (storeKeys b))" by (simp add: s)
  also have "\<dots> = length (storeKeys b)"
    using u(2) by (simp add: uniqueKeys_def distinct_card)
  finally show ?thesis
    using length_store [of a] length_store [of b] k by simp
qed

lemma seedRecords_idempotent:
  assumes "\<forall>i. adsUpsert w1 i = UpsertError \<longrightarrow> adsUpsert w2 i = UpsertError"
    and "\<forall>i. adasUpsert w1 i = UpsertError \<longrightarrow> adasUpsert w2 i = UpsertError"
    and "uniqueKeys st"
  shows "length (store (seedRecords w2 ads adas (store (seedRecords w1 ads adas st))))
           = length (store (seedRecords w1 ads adas st))"
proof (rule unique_length)
  show u1: "uniqueKeys (store (seedRecords w1 ads adas st))"
    using assms(3) by (rule seedRecords_unique)
  show "uniqueKeys (store (seedRecords w2 ads adas (store (seedRecords w1 ads adas st))))"
    using u1 by (rule seedRecords_unique)
  show "unkeyed (store (seedRecords w2 ads adas (store (seedRecords w1 ads adas st))))
          = unkeyed (store (seedRecords w1 ads adas st))"
    by (rule seedRecords_unkeyed)
  show "set (storeKeys (store (seedRecords w2 ads adas (store (seedRecords w1 ads adas st)))))
          = set (storeKeys (store (seedRecords w1 ads adas st)))"
    using writtenKeys_mono [OF assms(1), of "recordIds ''nhtsa-ads-'' ''ADS-'' ads" 0]
          writtenKeys_mono [OF assms(2), of "recordIds ''nhtsa-adas-'' ''ADAS-'' (take 500 adas)" 0]
    unfolding seedRecords_keys [of w2] unfolding seedRecords_keys [of w1] by blast
qed

lemma writtenKeys_subset: "writtenKeys answer ids i \<subseteq> set ids"
proof (induction answer ids i rule: writtenKeys.induct)
  case (1 answer ids i)
  show ?case
  proof (cases "i < length ids")
    case False
    then show ?thesis by (simp add: writtenKeys.simps)
  next
    case True
    have t: "set (take 50 (drop i ids)) \<subseteq> set ids"
      by (meson set_take_subset set_drop_subset subset_trans)
    show ?thesis
    proof (cases "answer i")
      case UpsertError
      then show ?thesis
        using True "1.IH"(1) [OF True UpsertError] by (simp add: writtenKeys.simps [of _ ids i])
    next
      case (Returned n)
      then show ?thesis
        using True t "1.IH"(2) [OF True Returned] by (simp add: writtenKeys.simps [of _ ids i])
    qed
  qed
qed

lemma length_upsertRow:
  "length (upsertRow st inc) = (if external_id inc \<in> set (storeKeys st) then length st else length st + 1)"
  by (simp add: upsertRow_def storeKeys_mem del: set_map)

text \<open>
  Claim C1. The \<^verbatim>\<open>external_id\<close> of a record is the source prefix followed by the report
  number, or by the tag and the index when there is none: it does not depend on the
  geocoding service, the caches, the random draws or the clock. An upsert of an
  \<^verbatim>\<open>external_id\<close> that the store holds keeps the number of rows. So a second run on
  the same two CSV texts leaves as many rows as the first run did, and no two rows share
  an \<^verbatim>\<open>external_id\<close> after either run. The store's answers are a parameter of a
  run: a batch that the store refused in the first run is taken to be refused in the
  second too (as when it refuses none); a batch written only by the second run would add
  its rows.
\<close>

theorem ingestion_idempotent:
  assumes "adsCsv w2 = adsCsv w1" and "adasCsv w2 = adasCsv w1"
    and "\<forall>i. adsUpsert w1 i = UpsertError \<longrightarrow> adsUpsert w2 i = UpsertError"
    and "\<forall>i. adasUpsert w1 i = UpsertError \<longrightarrow> adasUpsert w2 i = UpsertError"
    and "uniqueKeys st"
  shows "length (store (seedNHTSAData w2 (store (seedNHTSAData w1 st)))) = length (store (seedNHTSAData w1 st))
         \<and> uniqueKeys (store (seedNHTSAData w1 st))
         \<and> uniqueKeys (store (seedNHTSAData w2 (store (seedNHTSAData w1 st))))
         \<and> external_id (incident (processed (processADSRecord e gc sc r k)))
             = externalIdOf ''nhtsa-ads-'' ''ADS-'' r k
         \<and> external_id (incident (processed (processADASRecord e gc sc r k)))
             = externalIdOf ''nhtsa-adas-'' ''ADAS-'' r k
         \<and> length (upsertRow st inc)
             = (if external_id inc \<in> set (storeKeys st) then length st else length st + 1)"
proof -
  have ids: "external_id (incident (processed (processADSRecord e gc sc r k)))
               = externalIdOf ''nhtsa-ads-'' ''ADS-'' r k"
    "external_id (incident (processed (processADASRecord e gc sc r k)))
               = externalIdOf ''nhtsa-adas-'' ''ADAS-'' r k"
    by (simp_all add: processADSRecord_def processADASRecord_def processRecord_ids externalIdOf_def)
  have run: "length (store (seedNHTSAData w2 (store (seedNHTSAData w1 st)))) = length (store (seedNHTSAData w1 st))
         \<and> uniqueKeys (store (seedNHTSAData w1 st))
         \<and> uniqueKeys (store (seedNHTSAData w2 (store (seedNHTSAData w1 st))))"
  proof (cases "adsCsv w1")
    case None
    then show ?thesis using assms(1,5) by (simp add: seedNHTSAData_def)
  next
    case (Some a)
    note ads = this
    show ?thesis
    proof (cases "adasCsv w1")
      case None
      then show ?thesis using ads assms(1,2,5) by (simp add: seedNHTSAData_def)
    next
      case (Some b)
      have s1: "seedNHTSAData w1 = seedRecords w1 (parseCSV a) (parseCSV b)"
        using ads Some by (simp add: seedNHTSAData_def fun_eq_iff)
      have s2: "seedNHTSAData w2 = seedRecords w2 (parseCSV a) (parseCSV b)"
        using ads Some assms(1,2) by (simp add: seedNHTSAData_def fun_eq_iff)
      show ?thesis
        unfolding s1 s2
        using seedRecords_idempotent [OF assms(3,4,5)] seedRecords_unique [OF assms(5)]
              seedRecords_unique [OF seedRecords_unique [OF assms(5)]]
        by simp
    qed
  qed
  show ?thesis using run ids length_upsertRow by simp
qed

lemma sample_run_keys:
  "map rowKey (store (seedNHTSAData sampleWorld [Community 0]))
     = [None, Some ''nhtsa-ads-R1'', Some ''nhtsa-ads-ADS-2'', Some ''nhtsa-adas-A7'']"
  by code_simp

theorem ingestion_idempotent_witness:
  "length (store (seedNHTSAData sampleWorld (store (seedNHTSAData sampleWorld [Community 0])))) = 4
   \<and> length (store (seedNHTSAData sampleWorld [Community 0])) = 4
   \<and> uniqueKeys (store (seedNHTSAData sampleWorld (store (seedNHTSAData sampleWorld [Community 0]))))"
proof -
  have h1: "adsCsv sampleWorld = adsCsv sampleWorld" "adasCsv sampleWorld = adasCsv sampleWorld"
    by simp_all
  have h2: "\<forall>i. adsUpsert sampleWorld i = UpsertError \<longrightarrow> adsUpsert sampleWorld i = UpsertError"
    "\<forall>i. adasUpsert sampleWorld i = UpsertError \<longrightarrow> adasUpsert sampleWorld i = UpsertError"
    by simp_all
  have h3: "uniqueKeys [Community 0]"
    by (simp add: uniqueKeys_def storeKeys_def rowKey_def)
  note inst = ingestion_idempotent [OF h1 h2 h3]
  have l: "length (store (seedNHTSAData sampleWorld [Community 0])) = 4"
    using arg_cong [OF sample_run_keys, of length] by simp
  have c1: "length (store (seedNHTSAData sampleWorld (store (seedNHTSAData sampleWorld [Community 0])))) = 4"
    using inst [THEN conjunct1] l by simp
  have c3: "uniqueKeys (store (seedNHTSAData sampleWorld (store (seedNHTSAData sampleWorld [Community 0]))))"
    using inst [THEN conjunct2, THEN conjunct2, THEN conjunct1] .
  show ?thesis using c1 l c3 by (intro conjI)
qed

lemma writtenKeys_all:
  "\<forall>i. answer i \<noteq> UpsertError \<Longrightarrow> writtenKeys answer ids i = set (drop i ids)"
proof (induction answer ids i rule: writtenKeys.induct)
  case (1 answer ids i)
  show ?case
  proof (cases "i < length ids")
    case False
    then show ?thesis by (simp add: writtenKeys.simps)
  next
    case True
    obtain n where r: "answer i = Returned n"
      using "1.prems" by (cases "answer i") auto
    have "set (drop i ids) = set (take 50 (drop i ids) @ drop 50 (drop i ids))"
      by (simp only: append_take_drop_id)
    also have "\<dots> = set (take 50 (drop i ids)) \<union> set (drop (i + 50) ids)"
      by (simp add: add.commute)
    finally have d: "set (drop i ids) = set (take 50 (drop i ids)) \<union> set (drop (i + 50) ids)" .
    have "writtenKeys answer ids (i + 50) = set (drop (i + 50) ids)"
      using "1.IH"(2) [OF True r] "1.prems" by simp
    then show ?thesis
      using True r d by (simp add: writtenKeys.simps [of _ ids i])
  qed
qed

lemma seedRecords_stages:
  "store (seedRecords w ads adas st)
     = fst (upsertLoop (adasUpsert w) (map incident (fst (adasProcessed w ads adas))) 0
              (upsertLoop (adsUpsert w) (map incident (fst (adsProcessed w ads adas))) 0 (st, noCounts)))"
  "written (seedRecords w ads adas st)
     = snd (upsertLoop (adasUpsert w) (map incident (fst (adasProcessed w ads adas))) 0
              (upsertLoop (adsUpsert w) (map incident (fst (adsProcessed w ads adas))) 0 (st, noCounts)))"
  by (simp_all add: seedRecords_def Let_def adsProcessed_def adasProcessed_def cityCache_def noCounts_def)

lemma adsProcessed_nth:
  "length (fst (adsProcessed w ads adas)) = length ads"
  "k < length ads \<Longrightarrow>
   \<exists>sc. fst (adsProcessed w ads adas) ! k
          = processed (processADSRecord (adsEnv w k) (cityCache w ads adas) sc (ads ! k) k)"
proof -
  note n = processLoop_nth [of processADSRecord "adsEnv w" "cityCache w ads adas" ads 0 "[]" Map.empty,
                            folded adsProcessed_def]
  show "length (fst (adsProcessed w ads adas)) = length ads"
    using n by simp
  assume "k < length ads"
  then show "\<exists>sc. fst (adsProcessed w ads adas) ! k
          = processed (processADSRecord (adsEnv w k) (cityCache w ads adas) sc (ads ! k) k)"
    using n [THEN conjunct2, THEN conjunct2, THEN spec, of k] by simp
qed

lemma adasProcessed_nth:
  "length (fst (adasProcessed w ads adas)) = min 500 (length adas)"
  "k < min 500 (length adas) \<Longrightarrow>
   \<exists>sc. fst (adasProcessed w ads adas) ! k
          = processed (processADASRecord (adasEnv w k) (cityCache w ads adas) sc (adas ! k) k)"
proof -
  note n = processLoop_nth [of processADASRecord "adasEnv w" "cityCache w ads adas" "take 500 adas" 0 "[]"
                              "snd (adsProcessed w ads adas)", folded adasProcessed_def]
  show "length (fst (adasProcessed w ads adas)) = min 500 (length adas)"
    using n by (simp add: min.commute)
  assume k: "k < min 500 (length adas)"
  then have "take 500 adas ! k = adas ! k" by simp
  then show "\<exists>sc. fst (adasProcessed w ads adas) ! k
          = processed (processADASRecord (adasEnv w k) (cityCache w ads adas) sc (adas ! k) k)"
    using k n [THEN conjunct2, THEN conjunct2, THEN spec, of k] by simp
qed

text \<open>
  Claim C9. A run processes and hands to the store every ADS record, and of the ADAS
  records only the first 500. The run is the same as on the ADAS file cut after 500
  records. The ADS loop leaves one processed record for each ADS record, the record at
  position \<^verbatim>\<open>k\<close> normalized by \<^verbatim>\<open>processADSRecord\<close> with index \<^verbatim>\<open>k\<close>; the ADAS loop
  leaves one for each of the first 500 ADAS records, normalized by
  \<^verbatim>\<open>processADASRecord\<close>, and none for a later one. The store after the run is the store
  before it with these incidents upserted, the ADS ones first. Its keys are those it had
  and those of the batches that the store did not refuse; when it refuses none, they are
  those it had, those of all ADS records and those of the first 500 ADAS records. The
  three counters of the insertion loops add up to the number of ADS records plus at most
  500, and so do the three coordinate counters.
\<close>

theorem adas_limited_to_first_500:
  "seedRecords w ads adas st = seedRecords w ads (take 500 adas) st
   \<and> (adsCsv w = Some a \<and> adasCsv w = Some b
        \<longrightarrow> seedNHTSAData w st = seedRecords w (parseCSV a) (take 500 (parseCSV b)) st)
   \<and> length (fst (adsProcessed w ads adas)) = length ads
   \<and> length (fst (adasProcessed w ads adas)) = min 500 (length adas)
   \<and> (k < length ads \<longrightarrow>
        (\<exists>sc. fst (adsProcessed w ads adas) ! k
                = processed (processADSRecord (adsEnv w k) (cityCache w ads adas) sc (ads ! k) k)))
   \<and> (k < min 500 (length adas) \<longrightarrow>
        (\<exists>sc. fst (adasProcessed w ads adas) ! k
                = processed (processADASRecord (adasEnv w k) (cityCache w ads adas) sc (adas ! k) k)))
   \<and> store (seedRecords w ads adas st)
       = fst (upsertLoop (adasUpsert w) (map incident (fst (adasProcessed w ads adas))) 0
                (upsertLoop (adsUpsert w) (map incident (fst (adsProcessed w ads adas))) 0 (st, noCounts)))
   \<and> set (storeKeys (store (seedRecords w ads adas st)))
       = set (storeKeys st)
         \<union> writtenKeys (adsUpsert w) (recordIds ''nhtsa-ads-'' ''ADS-'' ads) 0
         \<union> writtenKeys (adasUpsert w) (recordIds ''nhtsa-adas-'' ''ADAS-'' (take 500 adas)) 0
   \<and> ((\<forall>i. adsUpsert w i \<noteq> UpsertError) \<and> (\<forall>i. adasUpsert w i \<noteq> UpsertError) \<longrightarrow>
        set (storeKeys (store (seedRecords w ads adas st)))
          = set (storeKeys st) \<union> set (recordIds ''nhtsa-ads-'' ''ADS-'' ads)
            \<union> set (recordIds ''nhtsa-adas-'' ''ADAS-'' (take 500 adas)))
   \<and> totalInserted (written (seedRecords w ads adas st)) + totalSkipped (written (seedRecords w ads adas st))
        + totalErrors (written (seedRecords w ads adas st))
       = int (length ads) + int (min 500 (length adas))
   \<and> realCoordsCount (seedRecords w ads adas st) + streetCoordsCount (seedRecords w ads adas st)
        + fallbackCoordsCount (seedRecords w ads adas st)
       = int (length ads) + int (min 500 (length adas))"
proof (intro conjI impI)
  show cut: "seedRecords w ads adas st = seedRecords w ads (take 500 adas) st" for ads adas
    by (simp add: seedRecords_def)
  assume "adsCsv w = Some a \<and> adasCsv w = Some b"
  then show "seedNHTSAData w st = seedRecords w (parseCSV a) (take 500 (parseCSV b)) st"
    using cut [of "parseCSV a" "parseCSV b"] by (simp add: seedNHTSAData_def)
next
  show "length (fst (adsProcessed w ads adas)) = length ads"
    by (rule adsProcessed_nth)
next
  show "length (fst (adasProcessed w ads adas)) = min 500 (length adas)"
    by (rule adasProcessed_nth)
next
  assume "k < length ads"
  then show "\<exists>sc. fst (adsProcessed w ads adas) ! k
                = processed (processADSRecord (adsEnv w k) (cityCache w ads adas) sc (ads ! k) k)"
    by (rule adsProcessed_nth)
next
  assume "k < min 500 (length adas)"
  then show "\<exists>sc. fst (adasProcessed w ads adas) ! k
                = processed (processADASRecord (adasEnv w k) (cityCache w ads adas) sc (adas ! k) k)"
    by (rule adasProcessed_nth)
next
  show "store (seedRecords w ads adas st)
       = fst (upsertLoop (adasUpsert w) (map incident (fst (adasProcessed w ads adas))) 0
                (upsertLoop (adsUpsert w) (map incident (fst (adsProcessed w ads adas))) 0 (st, noCounts)))"
    by (rule seedRecords_stages)
next
  show "set (storeKeys (store (seedRecords w ads adas st)))
       = set (storeKeys st)
         \<union> writtenKeys (adsUpsert w) (recordIds ''nhtsa-ads-'' ''ADS-'' ads) 0
         \<union> writtenKeys (adasUpsert w) (recordIds ''nhtsa-adas-'' ''ADAS-'' (take 500 adas)) 0"
    by (rule seedRecords_keys)
next
  assume h: "(\<forall>i. adsUpsert w i \<noteq> UpsertError) \<and> (\<forall>i. adasUpsert w i \<noteq> UpsertError)"
  have "writtenKeys (adsUpsert w) (recordIds ''nhtsa-ads-'' ''ADS-'' ads) 0
          = set (recordIds ''nhtsa-ads-'' ''ADS-'' ads)"
    using writtenKeys_all [of "adsUpsert w" "recordIds ''nhtsa-ads-'' ''ADS-'' ads" 0] h by simp
  moreover have "writtenKeys (adasUpsert w) (recordIds ''nhtsa-adas-'' ''ADAS-'' (take 500 adas)) 0
          = set (recordIds ''nhtsa-adas-'' ''ADAS-'' (take 500 adas))"
    using writtenKeys_all [of "adasUpsert w" "recordIds ''nhtsa-adas-'' ''ADAS-'' (take 500 adas)" 0] h by simp
  ultimately show "set (storeKeys (store (seedRecords w ads adas st)))
          = set (storeKeys st) \<union> set (recordIds ''nhtsa-ads-'' ''ADS-'' ads)
            \<union> set (recordIds ''nhtsa-adas-'' ''ADAS-'' (take 500 adas))"
    unfolding seedRecords_keys by simp
next
  show "totalInserted (written (seedRecords w ads adas st)) + totalSkipped (written (seedRecords w ads adas st))
        + totalErrors (written (seedRecords w ads adas st))
       = int (length ads) + int (min 500 (length adas))"
    by (rule seedRecords_written)
next
  show "realCoordsCount (seedRecords w ads adas st) + streetCoordsCount (seedRecords w ads adas st)
        + fallbackCoordsCount (seedRecords w ads adas st)
       = int (length ads) + int (min 500 (length adas))"
    by (rule seedRecords_coords)
qed

lemma showNat_499: "showNat 499 = ''499''"
  by (simp add: showNat.simps [of 499] showNat.simps [of 49] showNat.simps [of 4] digitChar_def)

theorem adas_limited_to_first_500_witness:
  "seedRecords sampleWorld [] (replicate 501 noStateRecord) []
     = seedRecords sampleWorld [] (replicate 500 noStateRecord) []
   \<and> seedNHTSAData sampleWorld [] = seedRecords sampleWorld (parseCSV sampleAdsCsv) (take 500 (parseCSV sampleAdasCsv)) []
   \<and> length (fst (adasProcessed sampleWorld [] (replicate 501 noStateRecord))) = 500
   \<and> (\<exists>sc. fst (adasProcessed sampleWorld [] (replicate 501 noStateRecord)) ! 499
             = processed (processADASRecord (sampleEnv failingService)
                            (cityCache sampleWorld [] (replicate 501 noStateRecord)) sc noStateRecord 499))
   \<and> (\<exists>sc. fst (adsProcessed sampleWorld [noStateRecord] []) ! 0
             = processed (processADSRecord (sampleEnv failingService)
                            (cityCache sampleWorld [noStateRecord] []) sc noStateRecord 0))
   \<and> set (storeKeys (store (seedRecords sampleWorld [] (replicate 501 noStateRecord) [])))
       = set (recordIds ''nhtsa-adas-'' ''ADAS-'' (replicate 500 noStateRecord))
   \<and> ''nhtsa-adas-ADAS-499'' \<in> set (storeKeys (store (seedRecords sampleWorld [] (replicate 501 noStateRecord) [])))
   \<and> totalInserted (written (seedRecords sampleWorld [] (replicate 501 noStateRecord) []))
        + totalSkipped (written (seedRecords sampleWorld [] (replicate 501 noStateRecord) []))
        + totalErrors (written (seedRecords sampleWorld [] (replicate 501 noStateRecord) []))
       = 500"
proof -
  note inst = adas_limited_to_first_500
     [of sampleWorld "[]" "replicate 501 noStateRecord" "[]" sampleAdsCsv sampleAdasCsv 499]
  note inst0 = adas_limited_to_first_500
     [of sampleWorld "[noStateRecord]" "[]" "[]" sampleAdsCsv sampleAdasCsv 0]
  have h: "adsCsv sampleWorld = Some sampleAdsCsv \<and> adasCsv sampleWorld = Some sampleAdasCsv"
    by (simp add: sampleWorld_def)
  have hk: "499 < min 500 (length (replicate 501 noStateRecord))" by simp
  have hk0: "0 < length [noStateRecord]" by simp
  have he: "(\<forall>i. adsUpsert sampleWorld i \<noteq> UpsertError) \<and> (\<forall>i. adasUpsert sampleWorld i \<noteq> UpsertError)"
    by (simp add: sampleWorld_def)
  have e: "adasEnv sampleWorld 499 = sampleEnv failingService" "adsEnv sampleWorld 0 = sampleEnv failingService"
    by (simp_all add: sampleWorld_def)
  have c1: "seedRecords sampleWorld [] (replicate 501 noStateRecord) []
     = seedRecords sampleWorld [] (replicate 500 noStateRecord) []"
    using inst [THEN conjunct1] by simp
  have c2: "seedNHTSAData sampleWorld [] = seedRecords sampleWorld (parseCSV sampleAdsCsv) (take 500 (parseCSV sampleAdasCsv)) []"
    using inst [THEN conjunct2, THEN conjunct1, THEN mp, OF h] .
  have c3: "length (fst (adasProcessed sampleWorld [] (replicate 501 noStateRecord))) = 500"
    using inst [THEN conjunct2, THEN conjunct2, THEN conjunct2, THEN conjunct1] by simp
  have c4: "\<exists>sc. fst (adasProcessed sampleWorld [] (replicate 501 noStateRecord)) ! 499
             = processed (processADASRecord (sampleEnv failingService)
                            (cityCache sampleWorld [] (replicate 501 noStateRecord)) sc noStateRecord 499)"
    using inst [THEN conjunct2, THEN conjunct2, THEN conjunct2, THEN conjunct2, THEN conjunct2,
                THEN conjunct1, THEN mp, OF hk]
    by (simp add: e)
  have c5: "\<exists>sc. fst (adsProcessed sampleWorld [noStateRecord] []) ! 0
             = processed (processADSRecord (sampleEnv failingService)
                            (cityCache sampleWorld [noStateRecord] []) sc noStateRecord 0)"
    using inst0 [THEN conjunct2, THEN conjunct2, THEN conjunct2, THEN conjunct2, THEN conjunct1, THEN mp, OF hk0]
    by (simp add: e)
  have c6: "set (storeKeys (store (seedRecords sampleWorld [] (replicate 501 noStateRecord) [])))
       = set (recordIds ''nhtsa-adas-'' ''ADAS-'' (replicate 500 noStateRecord))"
    using inst [THEN conjunct2, THEN conjunct2, THEN conjunct2, THEN conjunct2, THEN conjunct2,
                THEN conjunct2, THEN conjunct2, THEN conjunct2, THEN conjunct1, THEN mp, OF he]
    by (simp add: storeKeys_def recordIds_def)
  have "externalIdOf ''nhtsa-adas-'' ''ADAS-'' (replicate 500 noStateRecord ! 499) 499 = ''nhtsa-adas-ADAS-499''"
    by (simp add: externalIdOf_def noStateRecord_def orDefault_def showNat_499)
  moreover have "externalIdOf ''nhtsa-adas-'' ''ADAS-'' (replicate 500 noStateRecord ! 499) 499
                   \<in> set (recordIds ''nhtsa-adas-'' ''ADAS-'' (replicate 500 noStateRecord))"
    unfolding recordIds_def set_map by (rule image_eqI [where x = 499]) simp_all
  ultimately have c7: "''nhtsa-adas-ADAS-499'' \<in> set (storeKeys (store (seedRecords sampleWorld [] (replicate 501 noStateRecord) [])))"
    unfolding c6 by simp
  have c8: "totalInserted (written (seedRecords sampleWorld [] (replicate 501 noStateRecord) []))
        + totalSkipped (written (seedRecords sampleWorld [] (replicate 501 noStateRecord) []))
        + totalErrors (written (seedRecords sampleWorld [] (replicate 501 noStateRecord) []))
       = 500"
    using inst [THEN conjunct2, THEN conjunct2, THEN conjunct2, THEN conjunct2, THEN conjunct2,
                THEN conjunct2, THEN conjunct2, THEN conjunct2, THEN conjunct2, THEN conjunct1] by simp
  show ?thesis using c1 c2 c3 c4 c5 c6 c7 c8 by (intro conjI)
qed

section \<open>An impossible calendar date\<close>

text \<open>
  The \<^verbatim>\<open>YYYY-MM-DD\<close> branch does check the date it builds: the same impossible date
  written \<^verbatim>\<open>2025-13-40\<close> is null as soon as the host's \<^verbatim>\<open>Date.parse\<close> rejects it.
\<close>

lemma parseNHTSADate_invalid_iso_is_null:
  "dateParse d ''2025-13-40'' = None \<Longrightarrow> parseNHTSADate d (Some ''2025-13-40'') None = None"
  by (simp add: parseNHTSADate_def truthy_def trim_def isWhite_def toUpperCase_def upperUnits_def upperChar_def
        lowerLetters_def upperLetters_def parseMonthYear_def monthYearMatch_def isUpper_def
        charCode_def parseMDY_def mdyMatch_def parseISO_def isoMatch_def isDigit_def)

text \<open>
  Claim C5 says \<^verbatim>\<open>parseNHTSADate("13/40/2025")\<close> is null, so that the caller takes the
  ingestion time. The string matches the \<^verbatim>\<open>MM/DD/YYYY\<close> pattern, and
  \<^verbatim>\<open>new Date(2025, 12, 40)\<close> carries month 12 and day 40 over: the parser returns
  9 February 2026, 00:00 local time (day 20493 of the epoch), and a record with that
  incident date gets it as \<^verbatim>\<open>occurred_at\<close>, not the ingestion time.
\<close>

theorem parseNHTSADate_invalid_mdy_rolls_over:
  "parseNHTSADate d (Some ''13/40/2025'') None = Some (toUTC d (MakeDate (MakeDay 2026 1 9) 0))
   \<and> MakeDate (MakeDay 2026 1 9) 0 = 1770595200000
   \<and> parseNHTSADate d (Some ''13/40/2025'') None \<noteq> None
   \<and> occurred_at (incident (processed (processADSRecord e gc sc invalidDateRecord i)))
       = toUTC (host e) 1770595200000"
proof -
  have p: "parseNHTSADate d (Some ''13/40/2025'') None = Some (toUTC d 1770595200000)" for d
    by (simp add: parseNHTSADate_evals(1) MakeDay_evals MakeDate_def msPerDay_def)
  have m: "MakeDate (MakeDay 2026 1 9) 0 = 1770595200000"
    by (simp add: MakeDay_evals MakeDate_def msPerDay_def)
  have r: "orElse (invalidDateRecord ''Incident Date'') (invalidDateRecord ''Date of Incident'') = Some ''13/40/2025''"
    "invalidDateRecord ''Incident Time (24:00)'' = None"
    by (simp_all add: invalidDateRecord_def orElse_def truthy_def)
  have o: "occurred_at (incident (processed (processADSRecord e gc sc invalidDateRecord i)))
             = toUTC (host e) 1770595200000"
    by (simp add: processADSRecord_def processRecord_occurred r p)
  show ?thesis using p [of d] m o by simp
qed

end
